theory Spec2Isabelle
  imports Main "HOL-Library.Multiset"
begin

section \<open>Data model\<close>

text \<open>
  The program is a Mesa simulation: \<open>DummyAgent\<close> objects walk at random over a
  \<open>MultiGrid\<close> and clean the dirty tiles they land on; \<open>DummyModel\<close> owns the grid, the
  agents, the list of dirty tiles and the counters. Python integers are \<open>int\<close>; a cell
  is a pair of integers.
\<close>

type_synonym cell = "int \<times> int"

text \<open>
  The exceptions the code and the library calls it makes can raise: \<open>IndexError\<close>
  (indexing the grid's list of lists outside its range, \<open>random.choice\<close> on an empty
  sequence), \<open>ValueError\<close> (\<open>list.remove\<close> of an absent element) and the grid's
  "Point out of bounds" exception of \<open>move_agent\<close>.
\<close>

datatype error = IndexError | ValueError | OutOfBounds

text \<open>
  \<open>MultiGrid(width, height, torus=False)\<close>. The grid's cell contents are the agents
  whose \<open>pos\<close> is that cell (the grid keeps both in step), so the model keeps the
  dimensions and reads occupancy from the agents. The grid is a list of \<open>width\<close>
  columns of \<open>height\<close> cells built over \<open>range\<close>, and the model lets its constructor
  accept any two integers; a library version that rejects some dimensions only has
  fewer successful constructions, and what is proved below of every successful
  construction holds of those.
\<close>

record multigrid =
  width :: int
  height :: int

record agent =
  unique_id :: int
  pos :: cell
  next_pos :: "cell option"
  moves_made :: int

text \<open>
  The attributes of \<open>DummyModel\<close>. \<open>agents\<close> is the list the property of that name
  returns: the agents in creation order. \<open>is_done\<close> is the attribute \<open>done\<close>.
\<close>

record model =
  grid :: multigrid
  agents :: "agent list"
  dirty_tiles :: "cell list"
  dirty_count :: int
  max_steps :: int
  current_step :: int
  is_done :: bool
  cleaned_count :: int
  last_cleaned_step :: "int option"

text \<open>The module constants.\<close>

definition M :: int where
  "M = 6"

definition N :: int where
  "N = 6"

definition default_max_steps :: int where
  "default_max_steps = 100"

definition default_agent_count :: int where
  "default_agent_count = 3"

definition default_dirty_count :: int where
  "default_dirty_count = 12"

section \<open>Python helpers\<close>

text \<open>\<open>range(n)\<close>: empty when \<open>n \<le> 0\<close>.\<close>

definition py_range :: "int \<Rightarrow> int list" where
  "py_range n = [0..n - 1]"

text \<open>
  \<open>random.choice(seq)\<close> with the generator's draw \<open>r\<close>: the element at an index below
  \<open>len(seq)\<close>; \<open>IndexError\<close> on an empty sequence. Every index below the length is the
  outcome for some draw.
\<close>

definition random_choice :: "nat \<Rightarrow> 'a list \<Rightarrow> error + 'a" where
  "random_choice r xs = (if xs = [] then Inl IndexError else Inr (xs ! (r mod length xs)))"

text \<open>\<open>list.remove(x)\<close>: deletes the first occurrence, \<open>ValueError\<close> when there is none.\<close>

definition list_remove :: "'a \<Rightarrow> 'a list \<Rightarrow> error + 'a list" where
  "list_remove x xs = (if x \<in> set xs then Inr (remove1 x xs) else Inl ValueError)"

text \<open>\<open>str(n)\<close> of an integer, and of \<open>None\<close>, as an f-string prints them.\<close>

fun str_nat :: "nat \<Rightarrow> string" where
  "str_nat n =
     (if n < 10 then [''0123456789'' ! n]
      else str_nat (n div 10) @ [''0123456789'' ! (n mod 10)])"

definition str_int :: "int \<Rightarrow> string" where
  "str_int i = (if i < 0 then CHR ''-'' # str_nat (nat (- i)) else str_nat (nat i))"

definition str_opt :: "int option \<Rightarrow> string" where
  "str_opt v = (case v of None \<Rightarrow> ''None'' | Some i \<Rightarrow> str_int i)"

section \<open>The grid\<close>

text \<open>
  Indexing a Python list of length \<open>max 0 n\<close> (built over \<open>range(n)\<close>) at \<open>i\<close>:
  negative indices count from the end.
\<close>

definition index_ok :: "int \<Rightarrow> int \<Rightarrow> bool" where
  "index_ok n i = (- max 0 n \<le> i \<and> i < max 0 n)"

definition occupied :: "agent list \<Rightarrow> cell \<Rightarrow> bool" where
  "occupied as c = list_ex (\<lambda>a. pos a = c) as"

text \<open>\<open>grid.is_cell_empty(pos)\<close>: the cell holds no agent.\<close>

definition is_cell_empty :: "agent list \<Rightarrow> cell \<Rightarrow> bool" where
  "is_cell_empty as c = (\<not> occupied as c)"

text \<open>
  \<open>DummyAgent(unique_id, model)\<close> followed by \<open>grid.place_agent(agent, p)\<close>, which
  appends the agent to \<open>_grid[x][y]\<close> (an \<open>IndexError\<close> when the list has no such
  index) and sets the agent's \<open>pos\<close>.
\<close>

definition place_agent :: "multigrid \<Rightarrow> int \<Rightarrow> cell \<Rightarrow> error + agent" where
  "place_agent g uid p =
     (if index_ok (width g) (fst p) \<and> index_ok (height g) (snd p)
      then Inr \<lparr>unique_id = uid, pos = p, next_pos = None, moves_made = 0\<rparr>
      else Inl IndexError)"

section \<open>DummyAgent\<close>

definition in_bounds :: "multigrid \<Rightarrow> cell \<Rightarrow> bool" where
  "in_bounds g p = (case p of (x, y) \<Rightarrow> 0 \<le> x \<and> x < width g \<and> 0 \<le> y \<and> y < height g)"

definition moves :: "cell list" where
  "moves = [(-1, 0), (1, 0), (0, 1), (0, -1), (-1, -1), (1, 1), (-1, 1), (1, -1)]"

text \<open>
  \<open>intent\<close>: \<open>r\<close> is the draw of \<open>self.random.choice(moves)\<close> (\<open>moves\<close> has eight
  elements, so the choice cannot fail).
\<close>

definition intent :: "multigrid \<Rightarrow> nat \<Rightarrow> agent \<Rightarrow> agent" where
  "intent g r a =
     (let move = moves ! (r mod length moves);
          new_pos = (fst (pos a) + fst move, snd (pos a) + snd move)
      in if in_bounds g new_pos then a\<lparr>next_pos := Some new_pos\<rparr>
         else a\<lparr>next_pos := Some (pos a)\<rparr>)"

text \<open>
  \<open>grid.move_agent(agent, p)\<close>: raises when \<open>p\<close> is outside a grid that is not a torus,
  else moves the agent and sets its \<open>pos\<close>.
\<close>

definition move_agent :: "multigrid \<Rightarrow> agent \<Rightarrow> cell \<Rightarrow> error + agent" where
  "move_agent g a p = (if in_bounds g p then Inr (a\<lparr>pos := p\<rparr>) else Inl OutOfBounds)"

text \<open>\<open>advance\<close>: a tuple of two coordinates is truthy, \<open>None\<close> is not.\<close>

definition advance :: "multigrid \<Rightarrow> agent \<Rightarrow> error + agent" where
  "advance g a =
     (case next_pos a of
        None \<Rightarrow> Inr a
      | Some np \<Rightarrow>
          if in_bounds g np then
            (if np \<noteq> pos a then
               (case move_agent g a np of
                  Inl e \<Rightarrow> Inl e
                | Inr a' \<Rightarrow> Inr (a'\<lparr>moves_made := moves_made a' + 1\<rparr>))
             else Inr a)
          else Inr a)"

section \<open>DummyModel\<close>

text \<open>The loop of \<open>__init__\<close> over \<open>range(agent_count)\<close>: every agent is placed at \<open>(0, N-1)\<close>.\<close>

fun create_agents :: "multigrid \<Rightarrow> int list \<Rightarrow> error + agent list" where
  "create_agents g [] = Inr []"
| "create_agents g (i # ids) =
     (case place_agent g i (0, N - 1) of
        Inl e \<Rightarrow> Inl e
      | Inr a \<Rightarrow>
          (case create_agents g ids of
             Inl e \<Rightarrow> Inl e
           | Inr as \<Rightarrow> Inr (a # as)))"

definition free_cells :: "multigrid \<Rightarrow> agent list \<Rightarrow> cell list \<Rightarrow> cell list" where
  "free_cells g as dirty =
     concat (map (\<lambda>x. map (\<lambda>y. (x, y))
                    (filter (\<lambda>y. is_cell_empty as (x, y) \<and> (x, y) \<notin> set dirty)
                       (py_range (height g))))
              (py_range (width g)))"

text \<open>
  The loop of \<open>spawn_dirty_tiles\<close>: \<open>n\<close> iterations; \<open>rnd k\<close> is the \<open>k\<close>-th draw of the
  module-level generator behind \<open>random.choice(free_cells)\<close>.
\<close>

fun spawn_loop :: "nat \<Rightarrow> (nat \<Rightarrow> nat) \<Rightarrow> cell list \<Rightarrow> cell list \<Rightarrow> error + cell list" where
  "spawn_loop 0 rnd free dirty = Inr dirty"
| "spawn_loop (Suc n) rnd free dirty =
     (case random_choice (rnd 0) free of
        Inl e \<Rightarrow> Inl e
      | Inr c \<Rightarrow>
          (case list_remove c free of
             Inl e \<Rightarrow> Inl e
           | Inr free' \<Rightarrow> spawn_loop n (\<lambda>k. rnd (Suc k)) free' (dirty @ [c])))"

definition spawn_dirty_tiles :: "model \<Rightarrow> (nat \<Rightarrow> nat) \<Rightarrow> error + model" where
  "spawn_dirty_tiles m rnd =
     (let needed = dirty_count m - int (length (dirty_tiles m));
          free = free_cells (grid m) (agents m) (dirty_tiles m)
      in case spawn_loop (nat (min needed (int (length free)))) rnd free (dirty_tiles m) of
           Inl e \<Rightarrow> Inl e
         | Inr d \<Rightarrow> Inr (m\<lparr>dirty_tiles := d\<rparr>))"

text \<open>
  \<open>DummyModel(height, width, agent_count, dirty_count, max_steps)\<close>. The attributes
  that \<open>__init__\<close> assigns after \<open>spawn_dirty_tiles\<close> are not read by it, so the record
  is built with them before the call.
\<close>

definition DummyModel_init ::
    "int \<Rightarrow> int \<Rightarrow> int \<Rightarrow> int \<Rightarrow> int \<Rightarrow> (nat \<Rightarrow> nat) \<Rightarrow> error + model" where
  "DummyModel_init h w n_agents n_dirty n_steps rnd =
     (let g = \<lparr>width = w, height = h\<rparr>
      in case create_agents g (py_range n_agents) of
           Inl e \<Rightarrow> Inl e
         | Inr as \<Rightarrow>
             spawn_dirty_tiles
               \<lparr>grid = g, agents = as, dirty_tiles = [], dirty_count = n_dirty,
                max_steps = n_steps, current_step = 0, is_done = False,
                cleaned_count = 0, last_cleaned_step = None\<rparr> rnd)"

text \<open>\<open>print_summary\<close>: the lines it prints.\<close>

definition print_summary :: "model \<Rightarrow> string list" where
  "print_summary m =
     (let total_moves = sum_list (map moves_made (agents m))
      in if dirty_tiles m = [] then
           [''All dirty tiles cleaned at step '' @ str_opt (last_cleaned_step m) @ ''.'',
            ''Total tiles cleaned: '' @ str_int (cleaned_count m),
            ''Total agent moves: '' @ str_int total_moves]
         else
           [''Max steps ('' @ str_int (max_steps m) @ '') reached at step ''
              @ str_int (current_step m) @ ''.'',
            ''Total tiles cleaned: '' @ str_int (cleaned_count m),
            ''Total agent moves: '' @ str_int total_moves])"

text \<open>
  The two agent loops of \<open>step\<close>. \<open>ch i\<close> is the draw the \<open>i\<close>-th agent of the list
  makes in this tick.
\<close>

fun step_agents :: "multigrid \<Rightarrow> (nat \<Rightarrow> nat) \<Rightarrow> agent list \<Rightarrow> agent list" where
  "step_agents g ch [] = []"
| "step_agents g ch (a # as) = intent g (ch 0) a # step_agents g (\<lambda>i. ch (Suc i)) as"

fun advance_agents :: "multigrid \<Rightarrow> agent list \<Rightarrow> error + agent list" where
  "advance_agents g [] = Inr []"
| "advance_agents g (a # as) =
     (case advance g a of
        Inl e \<Rightarrow> Inl e
      | Inr a' \<Rightarrow>
          (case advance_agents g as of
             Inl e \<Rightarrow> Inl e
           | Inr as' \<Rightarrow> Inr (a' # as')))"

text \<open>The loop over \<open>to_remove\<close>.\<close>

fun remove_tiles :: "cell list \<Rightarrow> model \<Rightarrow> error + model" where
  "remove_tiles [] m = Inr m"
| "remove_tiles (t # ts) m =
     (case list_remove t (dirty_tiles m) of
        Inl e \<Rightarrow> Inl e
      | Inr d \<Rightarrow>
          remove_tiles ts
            (m\<lparr>dirty_tiles := d, cleaned_count := cleaned_count m + 1,
               last_cleaned_step := Some (current_step m + 1)\<rparr>))"

text \<open>\<open>step\<close>: the new state and the lines printed by the call.\<close>

definition step :: "model \<Rightarrow> (nat \<Rightarrow> nat) \<Rightarrow> error + model \<times> string list" where
  "step m ch =
     (if is_done m then Inr (m, [])
      else
        case advance_agents (grid m) (step_agents (grid m) ch (agents m)) of
          Inl e \<Rightarrow> Inl e
        | Inr as \<Rightarrow>
            (let m1 = m\<lparr>agents := as\<rparr>;
                 to_remove = filter (occupied (agents m1)) (dirty_tiles m1)
             in case remove_tiles to_remove m1 of
                  Inl e \<Rightarrow> Inl e
                | Inr m2 \<Rightarrow>
                    (let m3 = m2\<lparr>current_step := current_step m2 + 1\<rparr>
                     in if dirty_tiles m3 = [] \<or> max_steps m3 \<le> current_step m3
                        then Inr (m3\<lparr>is_done := True\<rparr>, print_summary (m3\<lparr>is_done := True\<rparr>))
                        else Inr (m3, []))))"

text \<open>A sequence of \<open>step\<close> calls, one per element of the list, and everything they print.\<close>

fun run :: "model \<Rightarrow> (nat \<Rightarrow> nat) list \<Rightarrow> error + model \<times> string list" where
  "run m [] = Inr (m, [])"
| "run m (ch # chs) =
     (case step m ch of
        Inl e \<Rightarrow> Inl e
      | Inr (m', out) \<Rightarrow>
          (case run m' chs of
             Inl e \<Rightarrow> Inl e
           | Inr (m'', out') \<Rightarrow> Inr (m'', out @ out')))"

section \<open>Observations of a run\<close>

text \<open>
  The number of agents whose position differs between two snapshots of the agent list,
  and its sum over the ticks of a run: the position changes an observer polling the
  engine between ticks sees.
\<close>

definition position_changes :: "agent list \<Rightarrow> agent list \<Rightarrow> int" where
  "position_changes as as' = int (length (filter (\<lambda>(a, a'). pos a \<noteq> pos a') (zip as as')))"

fun observed_changes :: "model \<Rightarrow> (nat \<Rightarrow> nat) list \<Rightarrow> error + int" where
  "observed_changes m [] = Inr 0"
| "observed_changes m (ch # chs) =
     (case step m ch of
        Inl e \<Rightarrow> Inl e
      | Inr (m', out) \<Rightarrow>
          (case observed_changes m' chs of
             Inl e \<Rightarrow> Inl e
           | Inr k \<Rightarrow> Inr (position_changes (agents m) (agents m') + k)))"

text \<open>A random source whose every draw is \<open>r\<close>.\<close>

definition always :: "nat \<Rightarrow> nat \<Rightarrow> nat" where
  "always r k = r"

section \<open>Agents: intent and advance\<close>

lemma intent_pos [simp]: "pos (intent g r a) = pos a"
  by (simp add: intent_def Let_def)

lemma intent_moves_made [simp]: "moves_made (intent g r a) = moves_made a"
  by (simp add: intent_def Let_def)

lemma intent_unique_id [simp]: "unique_id (intent g r a) = unique_id a"
  by (simp add: intent_def Let_def)

lemma intent_next_pos:
  "next_pos (intent g r a) =
     Some (if in_bounds g (fst (pos a) + fst (moves ! (r mod 8)), snd (pos a) + snd (moves ! (r mod 8)))
           then (fst (pos a) + fst (moves ! (r mod 8)), snd (pos a) + snd (moves ! (r mod 8)))
           else pos a)"
  by (simp add: intent_def Let_def moves_def)

lemma advance_eq:
  "advance g a =
     Inr (case next_pos a of
            None \<Rightarrow> a
          | Some np \<Rightarrow> if in_bounds g np \<and> np \<noteq> pos a
                       then a\<lparr>pos := np, moves_made := moves_made a + 1\<rparr> else a)"
  by (simp add: advance_def move_agent_def split: option.splits)

lemma advance_moves_made:
  "advance g a = Inr a' \<Longrightarrow>
     moves_made a' = moves_made a + (if pos a' \<noteq> pos a then 1 else 0)"
  by (auto simp: advance_eq split: option.splits if_splits)

lemma advance_in_bounds:
  "advance g a = Inr a' \<Longrightarrow> in_bounds g (pos a) \<Longrightarrow> in_bounds g (pos a')"
  by (auto simp: advance_eq split: option.splits if_splits)

lemma advance_unique_id:
  "advance g a = Inr a' \<Longrightarrow> unique_id a' = unique_id a"
  by (auto simp: advance_eq split: option.splits if_splits)

lemma advance_agents_total: "\<exists>as'. advance_agents g as = Inr as'"
  by (induction as) (auto simp: advance_eq)

lemma advance_agents_rel:
  "advance_agents g as = Inr as' \<Longrightarrow> list_all2 (\<lambda>a a'. advance g a = Inr a') as as'"
  by (induction as arbitrary: as') (auto split: sum.splits)

lemma step_agents_length [simp]: "length (step_agents g ch as) = length as"
  by (induction as arbitrary: ch) auto

lemma step_agents_pos [simp]: "map pos (step_agents g ch as) = map pos as"
  by (induction as arbitrary: ch) auto

lemma step_agents_moves_made [simp]: "map moves_made (step_agents g ch as) = map moves_made as"
  by (induction as arbitrary: ch) auto

lemma step_agents_nth:
  "i < length as \<Longrightarrow> step_agents g ch as ! i = intent g (ch i) (as ! i)"
proof (induction as arbitrary: ch i)
  case Nil
  then show ?case by simp
next
  case (Cons a as)
  then show ?case by (cases i) auto
qed

lemma remove_tiles_filter:
  "\<forall>p\<in>set pre. \<not> P p \<Longrightarrow> dirty_tiles m = pre @ ds \<Longrightarrow>
   remove_tiles (filter P ds) m =
     Inr (m\<lparr>dirty_tiles := pre @ filter (\<lambda>t. \<not> P t) ds,
            cleaned_count := cleaned_count m + int (length (filter P ds)),
            last_cleaned_step :=
              (if filter P ds = [] then last_cleaned_step m else Some (current_step m + 1))\<rparr>)"
proof (induction ds arbitrary: m pre)
  case Nil
  then show ?case by simp
next
  case (Cons x ds)
  show ?case
  proof (cases "P x")
    case True
    let ?m' = "m\<lparr>dirty_tiles := pre @ ds, cleaned_count := cleaned_count m + 1,
                  last_cleaned_step := Some (current_step m + 1)\<rparr>"
    from True Cons.prems have notin: "x \<notin> set pre" by auto
    have rm: "list_remove x (dirty_tiles m) = Inr (pre @ ds)"
      using Cons.prems(2) notin by (simp add: list_remove_def remove1_append)
    have "remove_tiles (filter P ds) ?m' =
            Inr (?m'\<lparr>dirty_tiles := pre @ filter (\<lambda>t. \<not> P t) ds,
                  cleaned_count := cleaned_count ?m' + int (length (filter P ds)),
                  last_cleaned_step :=
                    (if filter P ds = [] then last_cleaned_step ?m' else Some (current_step ?m' + 1))\<rparr>)"
      by (rule Cons.IH) (use Cons.prems in auto)
    then show ?thesis using True rm by simp
  next
    case False
    have "remove_tiles (filter P ds) m =
            Inr (m\<lparr>dirty_tiles := (pre @ [x]) @ filter (\<lambda>t. \<not> P t) ds,
                  cleaned_count := cleaned_count m + int (length (filter P ds)),
                  last_cleaned_step :=
                    (if filter P ds = [] then last_cleaned_step m else Some (current_step m + 1))\<rparr>)"
      by (rule Cons.IH) (use Cons.prems False in auto)
    then show ?thesis using False by simp
  qed
qed


lemma step_done: "is_done m \<Longrightarrow> step m ch = Inr (m, [])"
  by (simp add: step_def)

lemma step_running:
  assumes "\<not> is_done m"
  shows "\<exists>as'. advance_agents (grid m) (step_agents (grid m) ch (agents m)) = Inr as' \<and>
     step m ch =
       Inr (let m3 = m\<lparr>agents := as',
                       dirty_tiles := filter (\<lambda>t. \<not> occupied as' t) (dirty_tiles m),
                       cleaned_count :=
                         cleaned_count m + int (length (filter (occupied as') (dirty_tiles m))),
                       last_cleaned_step :=
                         (if filter (occupied as') (dirty_tiles m) = [] then last_cleaned_step m
                          else Some (current_step m + 1)),
                       current_step := current_step m + 1\<rparr>
            in if dirty_tiles m3 = [] \<or> max_steps m3 \<le> current_step m3
               then (m3\<lparr>is_done := True\<rparr>, print_summary (m3\<lparr>is_done := True\<rparr>))
               else (m3, []))"
proof -
  obtain as' where as': "advance_agents (grid m) (step_agents (grid m) ch (agents m)) = Inr as'"
    using advance_agents_total by blast
  have rm: "remove_tiles (filter (occupied as') (dirty_tiles m)) (m\<lparr>agents := as'\<rparr>) =
      Inr (m\<lparr>agents := as'\<rparr>\<lparr>dirty_tiles := [] @ filter (\<lambda>t. \<not> occupied as' t) (dirty_tiles m),
            cleaned_count := cleaned_count (m\<lparr>agents := as'\<rparr>)
               + int (length (filter (occupied as') (dirty_tiles m))),
            last_cleaned_step :=
              (if filter (occupied as') (dirty_tiles m) = [] then last_cleaned_step (m\<lparr>agents := as'\<rparr>)
               else Some (current_step (m\<lparr>agents := as'\<rparr>) + 1))\<rparr>)"
    by (rule remove_tiles_filter) simp_all
  show ?thesis
    using assms as' rm by (simp add: step_def Let_def)
qed


lemma step_result:
  assumes "step m ch = Inr (m', out)" "\<not> is_done m"
  shows "\<exists>as'. advance_agents (grid m) (step_agents (grid m) ch (agents m)) = Inr as' \<and>
     m' = m\<lparr>agents := as',
            dirty_tiles := filter (\<lambda>t. \<not> occupied as' t) (dirty_tiles m),
            cleaned_count :=
              cleaned_count m + int (length (filter (occupied as') (dirty_tiles m))),
            last_cleaned_step :=
              (if filter (occupied as') (dirty_tiles m) = [] then last_cleaned_step m
               else Some (current_step m + 1)),
            current_step := current_step m + 1,
            is_done := (filter (\<lambda>t. \<not> occupied as' t) (dirty_tiles m) = []
                        \<or> max_steps m \<le> current_step m + 1)\<rparr> \<and>
     out = (if filter (\<lambda>t. \<not> occupied as' t) (dirty_tiles m) = []
               \<or> max_steps m \<le> current_step m + 1
            then print_summary m' else [])"
proof -
  from step_running [OF assms(2), of ch] obtain as' where
    as': "advance_agents (grid m) (step_agents (grid m) ch (agents m)) = Inr as'" and
    st: "step m ch =
       Inr (let m3 = m\<lparr>agents := as',
                       dirty_tiles := filter (\<lambda>t. \<not> occupied as' t) (dirty_tiles m),
                       cleaned_count :=
                         cleaned_count m + int (length (filter (occupied as') (dirty_tiles m))),
                       last_cleaned_step :=
                         (if filter (occupied as') (dirty_tiles m) = [] then last_cleaned_step m
                          else Some (current_step m + 1)),
                       current_step := current_step m + 1\<rparr>
            in if dirty_tiles m3 = [] \<or> max_steps m3 \<le> current_step m3
               then (m3\<lparr>is_done := True\<rparr>, print_summary (m3\<lparr>is_done := True\<rparr>))
               else (m3, []))"
    by blast
  have nd: "m\<lparr>is_done := False\<rparr> = m" using assms(2) by simp
  show ?thesis
  proof (cases "filter (\<lambda>t. \<not> occupied as' t) (dirty_tiles m) = []
                 \<or> max_steps m \<le> current_step m + 1")
    case True
    with st assms(1) as' show ?thesis
      by (intro exI [of _ as']) (simp add: Let_def)
  next
    case False
    with st assms(1) have "m' = m\<lparr>agents := as',
            dirty_tiles := filter (\<lambda>t. \<not> occupied as' t) (dirty_tiles m),
            cleaned_count :=
              cleaned_count m + int (length (filter (occupied as') (dirty_tiles m))),
            last_cleaned_step :=
              (if filter (occupied as') (dirty_tiles m) = [] then last_cleaned_step m
               else Some (current_step m + 1)),
            current_step := current_step m + 1\<rparr>" and "out = []"
      by (simp_all add: Let_def)
    moreover have "m\<lparr>agents := as',
            dirty_tiles := filter (\<lambda>t. \<not> occupied as' t) (dirty_tiles m),
            cleaned_count :=
              cleaned_count m + int (length (filter (occupied as') (dirty_tiles m))),
            last_cleaned_step :=
              (if filter (occupied as') (dirty_tiles m) = [] then last_cleaned_step m
               else Some (current_step m + 1)),
            current_step := current_step m + 1\<rparr>
       = m\<lparr>agents := as',
            dirty_tiles := filter (\<lambda>t. \<not> occupied as' t) (dirty_tiles m),
            cleaned_count :=
              cleaned_count m + int (length (filter (occupied as') (dirty_tiles m))),
            last_cleaned_step :=
              (if filter (occupied as') (dirty_tiles m) = [] then last_cleaned_step m
               else Some (current_step m + 1)),
            current_step := current_step m + 1, is_done := False\<rparr>"
      using assms(2) by (cases m) simp
    ultimately show ?thesis using as' False
      by (intro exI [of _ as']) simp
  qed
qed

lemma step_total: "\<exists>m' out. step m ch = Inr (m', out)"
proof (cases "is_done m")
  case True
  then show ?thesis by (simp add: step_done)
next
  case False
  from step_running [OF this, of ch] obtain r where "step m ch = Inr r" by blast
  then show ?thesis by (cases r) simp
qed

lemma step_agents_of:
  assumes "step m ch = Inr (m', out)" "\<not> is_done m"
  shows "advance_agents (grid m) (step_agents (grid m) ch (agents m)) = Inr (agents m')"
  using step_result [OF assms] by auto

lemma step_dirty_tiles:
  assumes "step m ch = Inr (m', out)" "\<not> is_done m"
  shows "dirty_tiles m' = filter (\<lambda>t. \<not> occupied (agents m') t) (dirty_tiles m)"
  using step_result [OF assms] by auto

lemma step_cleaned_count:
  assumes "step m ch = Inr (m', out)" "\<not> is_done m"
  shows "cleaned_count m' =
           cleaned_count m + int (length (filter (occupied (agents m')) (dirty_tiles m)))"
  using step_result [OF assms] by auto

lemma step_last_cleaned_step:
  assumes "step m ch = Inr (m', out)" "\<not> is_done m"
  shows "last_cleaned_step m' =
           (if filter (occupied (agents m')) (dirty_tiles m) = [] then last_cleaned_step m
            else Some (current_step m + 1))"
  using step_result [OF assms] by auto

lemma step_current_step:
  assumes "step m ch = Inr (m', out)" "\<not> is_done m"
  shows "current_step m' = current_step m + 1"
  using step_result [OF assms] by auto

lemma step_frame:
  assumes "step m ch = Inr (m', out)"
  shows "grid m' = grid m \<and> max_steps m' = max_steps m \<and> dirty_count m' = dirty_count m"
proof (cases "is_done m")
  case True
  then show ?thesis using assms by (simp add: step_done)
next
  case False
  from step_result [OF assms this] show ?thesis by auto
qed

lemma step_is_done:
  assumes "step m ch = Inr (m', out)" "\<not> is_done m"
  shows "is_done m' = (dirty_tiles m' = [] \<or> max_steps m' \<le> current_step m')"
  using step_result [OF assms] by auto

lemma step_out:
  assumes "step m ch = Inr (m', out)" "\<not> is_done m"
  shows "out = (if is_done m' then print_summary m' else [])"
  using step_result [OF assms] by auto

section \<open>Construction\<close>

lemma create_agents_props:
  "create_agents g ids = Inr as \<Longrightarrow>
     map unique_id as = ids \<and>
     list_all (\<lambda>a. pos a = (0, N - 1) \<and> next_pos a = None \<and> moves_made a = 0) as \<and>
     (ids \<noteq> [] \<longrightarrow> 0 < width g \<and> N - 1 < height g)"
proof (induction ids arbitrary: as)
  case Nil
  then show ?case by simp
next
  case (Cons i ids)
  then show ?case
    by (auto simp: place_agent_def index_ok_def N_def split: sum.splits if_splits)
qed


lemma create_agents_fails:
  "ids \<noteq> [] \<Longrightarrow> \<not> (0 < width g \<and> N - 1 < height g) \<Longrightarrow> create_agents g ids = Inl IndexError"
  by (cases ids) (auto simp: place_agent_def index_ok_def N_def)

lemma create_agents_in_bounds:
  assumes "create_agents g ids = Inr as"
  shows "list_all (\<lambda>a. in_bounds g (pos a)) as"
proof (cases "ids = []")
  case True
  with assms show ?thesis by simp
next
  case False
  with create_agents_props [OF assms]
  have "0 < width g" "N - 1 < height g"
    and "list_all (\<lambda>a. pos a = (0, N - 1)) as"
    by (auto simp: list_all_iff)
  then show ?thesis by (auto simp: list_all_iff in_bounds_def N_def)
qed

lemma distinct_py_range: "distinct (py_range n)"
  by (simp add: py_range_def)

lemma set_py_range: "set (py_range n) = {i. 0 \<le> i \<and> i < n}"
  by (auto simp: py_range_def)

lemma set_free_cells:
  "set (free_cells g as dirty) =
     {c. in_bounds g c \<and> \<not> occupied as c \<and> c \<notin> set dirty}"
  by (auto simp: free_cells_def set_py_range in_bounds_def is_cell_empty_def)

lemma free_cells_product:
  "free_cells g as dirty =
     filter (\<lambda>c. is_cell_empty as c \<and> c \<notin> set dirty)
       (List.product (py_range (width g)) (py_range (height g)))"
proof -
  have "concat (map (\<lambda>x. map (\<lambda>y. (x, y)) (filter (\<lambda>y. P (x, y)) ys)) xs) =
        filter P (List.product xs ys)" for P :: "cell \<Rightarrow> bool" and xs ys
    by (induction xs) (simp_all add: filter_map comp_def)
  then show ?thesis by (simp add: free_cells_def)
qed

lemma distinct_free_cells: "distinct (free_cells g as dirty)"
  by (simp add: free_cells_product distinct_product distinct_py_range)

lemma spawn_loop_props:
  "n \<le> length free \<Longrightarrow> distinct free \<Longrightarrow>
     \<exists>d. spawn_loop n rnd free dirty = Inr (dirty @ d) \<and> length d = n \<and> distinct d \<and>
         set d \<subseteq> set free"
proof (induction n arbitrary: rnd free dirty)
  case 0
  then show ?case by simp
next
  case (Suc n)
  from Suc.prems have ne: "free \<noteq> []" by auto
  define c where "c = free ! (rnd 0 mod length free)"
  have c_in: "c \<in> set free" using ne by (simp add: c_def)
  have ch: "random_choice (rnd 0) free = Inr c"
    using ne by (simp add: random_choice_def c_def)
  have rm: "list_remove c free = Inr (remove1 c free)"
    using c_in by (simp add: list_remove_def)
  have len: "n \<le> length (remove1 c free)"
    using Suc.prems c_in by (simp add: length_remove1)
  have dist: "distinct (remove1 c free)" using Suc.prems by simp
  from Suc.IH [OF len dist, of "\<lambda>k. rnd (Suc k)" "dirty @ [c]"]
  obtain d where d: "spawn_loop n (\<lambda>k. rnd (Suc k)) (remove1 c free) (dirty @ [c]) = Inr ((dirty @ [c]) @ d)"
     "length d = n" "distinct d" "set d \<subseteq> set (remove1 c free)"
    by blast
  have "c \<notin> set d" using d(4) Suc.prems(2) by auto
  moreover have "set d \<subseteq> set free" using d(4) set_remove1_subset by fast
  ultimately show ?case
    using ch rm d c_in by (intro exI [of _ "c # d"]) simp
qed

lemma spawn_dirty_tiles_props:
  "\<exists>d. spawn_dirty_tiles m rnd = Inr (m\<lparr>dirty_tiles := dirty_tiles m @ d\<rparr>) \<and>
       length d = nat (min (dirty_count m - int (length (dirty_tiles m)))
                           (int (length (free_cells (grid m) (agents m) (dirty_tiles m))))) \<and>
       distinct d \<and> set d \<subseteq> set (free_cells (grid m) (agents m) (dirty_tiles m))"
proof -
  let ?free = "free_cells (grid m) (agents m) (dirty_tiles m)"
  let ?n = "nat (min (dirty_count m - int (length (dirty_tiles m))) (int (length ?free)))"
  have "?n \<le> length ?free" by simp
  from spawn_loop_props [OF this distinct_free_cells, of rnd "dirty_tiles m"]
  show ?thesis by (auto simp: spawn_dirty_tiles_def Let_def)
qed

lemma DummyModel_init_props:
  assumes "DummyModel_init h w na nd ns rnd = Inr m"
  shows "grid m = \<lparr>width = w, height = h\<rparr>"
    and "create_agents \<lparr>width = w, height = h\<rparr> (py_range na) = Inr (agents m)"
    and "distinct (dirty_tiles m)"
    and "set (dirty_tiles m) \<subseteq> set (free_cells (grid m) (agents m) [])"
    and "length (dirty_tiles m) = nat (min nd (int (length (free_cells (grid m) (agents m) []))))"
    and "dirty_count m = nd" and "max_steps m = ns" and "current_step m = 0"
    and "\<not> is_done m" and "cleaned_count m = 0" and "last_cleaned_step m = None"
proof -
  let ?g = "\<lparr>width = w, height = h\<rparr>"
  from assms obtain as where as: "create_agents ?g (py_range na) = Inr as"
    by (auto simp: DummyModel_init_def Let_def split: sum.splits)
  let ?m0 = "\<lparr>grid = ?g, agents = as, dirty_tiles = [], dirty_count = nd,
                max_steps = ns, current_step = 0, is_done = False,
                cleaned_count = 0, last_cleaned_step = None\<rparr>"
  from assms as have sp: "spawn_dirty_tiles ?m0 rnd = Inr m"
    by (simp add: DummyModel_init_def Let_def)
  from spawn_dirty_tiles_props [of ?m0 rnd] sp obtain d where
    m: "m = ?m0\<lparr>dirty_tiles := d\<rparr>" and
    d: "length d = nat (min nd (int (length (free_cells ?g as []))))" "distinct d"
       "set d \<subseteq> set (free_cells ?g as [])"
    by auto
  show "grid m = ?g" using m by simp
  show "create_agents ?g (py_range na) = Inr (agents m)" using m as by simp
  show "distinct (dirty_tiles m)" using m d by simp
  show "set (dirty_tiles m) \<subseteq> set (free_cells (grid m) (agents m) [])" using m d by simp
  show "length (dirty_tiles m) = nat (min nd (int (length (free_cells (grid m) (agents m) []))))"
    using m d by simp
  show "dirty_count m = nd" "max_steps m = ns" "current_step m = 0"
    "\<not> is_done m" "cleaned_count m = 0" "last_cleaned_step m = None"
    using m by simp_all
qed


section \<open>Runs\<close>

lemma run_total: "\<exists>m' out. run m chs = Inr (m', out)"
proof (induction chs arbitrary: m)
  case Nil
  then show ?case by simp
next
  case (Cons ch chs)
  obtain m1 out1 where s: "step m ch = Inr (m1, out1)" using step_total by blast
  obtain m2 out2 where "run m1 chs = Inr (m2, out2)" using Cons.IH by blast
  with s show ?case by simp
qed

lemma run_Cons:
  assumes "run m (ch # chs) = Inr (m', out)"
  obtains m1 out1 out2 where "step m ch = Inr (m1, out1)" "run m1 chs = Inr (m', out2)"
    "out = out1 @ out2"
  using assms by (auto split: sum.splits prod.splits)

lemma run_invariant:
  assumes "run m chs = Inr (m', out)" and "P m"
    and "\<And>m ch m' out. P m \<Longrightarrow> step m ch = Inr (m', out) \<Longrightarrow> P m'"
  shows "P m'"
  using assms(1,2)
proof (induction chs arbitrary: m out)
  case Nil
  then show ?case by simp
next
  case (Cons ch chs)
  from Cons.prems(1) obtain m1 out1 out2 where
    s: "step m ch = Inr (m1, out1)" and r: "run m1 chs = Inr (m', out2)"
    by (rule run_Cons)
  have "P m1" using assms(3) Cons.prems(2) s by blast
  with Cons.IH r show ?case by blast
qed

lemma advance_agents_in_bounds:
  "advance_agents g as = Inr as' \<Longrightarrow> list_all (\<lambda>a. in_bounds g (pos a)) as \<Longrightarrow>
   list_all (\<lambda>a. in_bounds g (pos a)) as'"
proof (induction as arbitrary: as')
  case Nil
  then show ?case by simp
next
  case (Cons a as)
  then show ?case
    by (auto split: sum.splits dest: advance_in_bounds)
qed

lemma step_agents_in_bounds:
  "list_all (\<lambda>a. in_bounds g (pos a)) as \<Longrightarrow>
   list_all (\<lambda>a. in_bounds g (pos a)) (step_agents g ch as)"
  by (induction as arbitrary: ch) auto

lemma step_in_bounds:
  assumes "step m ch = Inr (m', out)"
    and "list_all (\<lambda>a. in_bounds (grid m) (pos a)) (agents m)"
  shows "list_all (\<lambda>a. in_bounds (grid m') (pos a)) (agents m')"
proof (cases "is_done m")
  case True
  with assms show ?thesis by (simp add: step_done)
next
  case False
  have g: "grid m' = grid m" using step_frame [OF assms(1)] by simp
  from step_agents_of [OF assms(1) False] advance_agents_in_bounds step_agents_in_bounds assms(2)
  show ?thesis unfolding g by blast
qed

lemma run_in_bounds:
  assumes "run m chs = Inr (m', out)"
    and "list_all (\<lambda>a. in_bounds (grid m) (pos a)) (agents m)"
  shows "list_all (\<lambda>a. in_bounds (grid m') (pos a)) (agents m')"
  using assms(1,2)
  by (rule run_invariant [where P = "\<lambda>m. list_all (\<lambda>a. in_bounds (grid m) (pos a)) (agents m)"])
     (rule step_in_bounds)

lemma run_frame:
  assumes "run m chs = Inr (m', out)"
  shows "grid m' = grid m \<and> max_steps m' = max_steps m \<and> dirty_count m' = dirty_count m"
  using assms
  by (rule run_invariant [where P = "\<lambda>x. grid x = grid m \<and> max_steps x = max_steps m \<and> dirty_count x = dirty_count m"])
     (use step_frame in auto)

lemma init_in_bounds:
  assumes "DummyModel_init h w na nd ns rnd = Inr m"
  shows "list_all (\<lambda>a. in_bounds (grid m) (pos a)) (agents m)"
  using create_agents_in_bounds [OF DummyModel_init_props(2) [OF assms]]
    DummyModel_init_props(1) [OF assms] by simp

lemma intent_out_of_grid:
  assumes "\<not> in_bounds g (fst (pos a) + fst (moves ! (r mod 8)), snd (pos a) + snd (moves ! (r mod 8)))"
  shows "next_pos (intent g r a) = Some (pos a)"
    and "advance g (intent g r a) = Inr (intent g r a)"
  using assms by (simp_all add: advance_eq intent_next_pos)

section \<open>The claims\<close>

text \<open>
  C2. In every state reached from a successful construction by any sequence of \<open>step\<close>
  calls (which always return), every agent's position \<open>(x, y)\<close> satisfies
  \<open>0 \<le> x < width\<close> and \<open>0 \<le> y < height\<close>. When the candidate position drawn in
  \<open>intent\<close> lies outside the grid, the intent is the agent's current position and
  \<open>advance\<close> leaves the agent as it is; and whenever \<open>advance\<close> changes a position, the
  new position is inside the grid.
\<close>

theorem agents_stay_in_grid:
  "(DummyModel_init h w na nd ns rnd = Inr m0 \<longrightarrow>
      (\<exists>m out. run m0 chs = Inr (m, out) \<and>
         list_all (\<lambda>a. 0 \<le> fst (pos a) \<and> fst (pos a) < w \<and> 0 \<le> snd (pos a) \<and> snd (pos a) < h)
           (agents m))) \<and>
   (\<not> in_bounds g (fst (pos a) + fst (moves ! (r mod 8)), snd (pos a) + snd (moves ! (r mod 8))) \<longrightarrow>
      intent g r a = a\<lparr>next_pos := Some (pos a)\<rparr> \<and>
      advance g (intent g r a) = Inr (intent g r a)) \<and>
   (advance g b = Inr b' \<and> pos b' \<noteq> pos b \<longrightarrow> in_bounds g (pos b'))"
proof (intro conjI impI)
  assume init: "DummyModel_init h w na nd ns rnd = Inr m0"
  obtain m out where r: "run m0 chs = Inr (m, out)" using run_total by blast
  have "list_all (\<lambda>a. in_bounds (grid m) (pos a)) (agents m)"
    using r init_in_bounds [OF init] by (rule run_in_bounds)
  moreover have "grid m = \<lparr>width = w, height = h\<rparr>"
    using run_frame [OF r] DummyModel_init_props(1) [OF init] by simp
  ultimately have "list_all (\<lambda>a. 0 \<le> fst (pos a) \<and> fst (pos a) < w \<and> 0 \<le> snd (pos a) \<and> snd (pos a) < h)
           (agents m)"
    by (simp add: in_bounds_def case_prod_beta)
  with r show "\<exists>m out. run m0 chs = Inr (m, out) \<and>
         list_all (\<lambda>a. 0 \<le> fst (pos a) \<and> fst (pos a) < w \<and> 0 \<le> snd (pos a) \<and> snd (pos a) < h)
           (agents m)"
    by blast
next
  assume out: "\<not> in_bounds g (fst (pos a) + fst (moves ! (r mod 8)), snd (pos a) + snd (moves ! (r mod 8)))"
  then show "intent g r a = a\<lparr>next_pos := Some (pos a)\<rparr>"
    by (simp add: intent_def Let_def moves_def)
  from out show "advance g (intent g r a) = Inr (intent g r a)"
    by (rule intent_out_of_grid(2))
next
  assume "advance g b = Inr b' \<and> pos b' \<noteq> pos b"
  then show "in_bounds g (pos b')"
    by (auto simp: advance_eq split: option.splits if_splits)
qed

theorem agents_stay_in_grid_witness:
  "DummyModel_init 6 6 1 1 5 (always 0) =
     Inr \<lparr>grid = \<lparr>width = 6, height = 6\<rparr>,
          agents = [\<lparr>unique_id = 0, pos = (0, 5), next_pos = None, moves_made = 0\<rparr>],
          dirty_tiles = [(0, 0)], dirty_count = 1, max_steps = 5, current_step = 0,
          is_done = False, cleaned_count = 0, last_cleaned_step = None\<rparr> \<and>
   (\<exists>m out. run \<lparr>grid = \<lparr>width = 6, height = 6\<rparr>,
          agents = [\<lparr>unique_id = 0, pos = (0, 5), next_pos = None, moves_made = 0\<rparr>],
          dirty_tiles = [(0, 0)], dirty_count = 1, max_steps = 5, current_step = 0,
          is_done = False, cleaned_count = 0, last_cleaned_step = None\<rparr> [always 0, always 5]
        = Inr (m, out) \<and>
      list_all (\<lambda>a. 0 \<le> fst (pos a) \<and> fst (pos a) < 6 \<and> 0 \<le> snd (pos a) \<and> snd (pos a) < 6)
        (agents m)) \<and>
   \<not> in_bounds \<lparr>width = 6, height = 6\<rparr> (-1, 5) \<and>
   intent \<lparr>width = 6, height = 6\<rparr> 0 \<lparr>unique_id = 0, pos = (0, 5), next_pos = None, moves_made = 0\<rparr>
     = \<lparr>unique_id = 0, pos = (0, 5), next_pos = Some (0, 5), moves_made = 0\<rparr> \<and>
   advance \<lparr>width = 6, height = 6\<rparr> \<lparr>unique_id = 0, pos = (0, 5), next_pos = Some (0, 4), moves_made = 0\<rparr>
     = Inr \<lparr>unique_id = 0, pos = (0, 4), next_pos = Some (0, 4), moves_made = 1\<rparr> \<and>
   in_bounds \<lparr>width = 6, height = 6\<rparr> (0, 4)"
proof -
  let ?g = "\<lparr>width = 6, height = 6\<rparr>"
  let ?a = "\<lparr>unique_id = 0, pos = (0, 5), next_pos = None, moves_made = 0\<rparr>"
  let ?b = "\<lparr>unique_id = 0, pos = (0, 5), next_pos = Some (0, 4), moves_made = 0\<rparr>"
  let ?b' = "\<lparr>unique_id = 0, pos = (0, 4), next_pos = Some (0, 4), moves_made = 1\<rparr>"
  let ?m0 = "\<lparr>grid = ?g, agents = [?a],
          dirty_tiles = [(0, 0)], dirty_count = 1, max_steps = 5, current_step = 0,
          is_done = False, cleaned_count = 0, last_cleaned_step = None\<rparr>"
  have init: "DummyModel_init 6 6 1 1 5 (always 0) = Inr ?m0"
    by code_simp
  have out: "\<not> in_bounds ?g (fst (pos ?a) + fst (moves ! (0 mod 8)), snd (pos ?a) + snd (moves ! (0 mod 8)))"
    by (simp add: in_bounds_def moves_def)
  have adv: "advance ?g ?b = Inr ?b' \<and> pos ?b' \<noteq> pos ?b"
    by (simp add: advance_def move_agent_def in_bounds_def)
  note T = agents_stay_in_grid [where h = 6 and w = 6 and na = 1 and nd = 1 and ns = 5
      and rnd = "always 0" and ?m0.0 = ?m0 and chs = "[always 0, always 5]" and g = ?g and a = ?a
      and r = 0 and b = ?b and b' = ?b']
  from T init have A: "\<exists>m out. run ?m0 [always 0, always 5] = Inr (m, out) \<and>
      list_all (\<lambda>a. 0 \<le> fst (pos a) \<and> fst (pos a) < 6 \<and> 0 \<le> snd (pos a) \<and> snd (pos a) < 6)
        (agents m)"
    by blast
  from T out have "intent ?g 0 ?a = ?a\<lparr>next_pos := Some (pos ?a)\<rparr>"
    by blast
  then have B: "intent ?g 0 ?a =
      \<lparr>unique_id = 0, pos = (0, 5), next_pos = Some (0, 5), moves_made = 0\<rparr>"
    by simp
  from T adv have "in_bounds ?g (pos ?b')" by blast
  then have C: "in_bounds ?g (0, 4)" by simp
  have nb: "\<not> in_bounds ?g (-1, 5)" by (simp add: in_bounds_def)
  from adv have adv': "advance ?g ?b = Inr ?b'" by blast
  from init A nb B adv' C show ?thesis by blast
qed

text \<open>
  C5. A \<open>step\<close> call always returns. Made while \<open>done\<close> is false it increases
  \<open>current_step\<close> by exactly 1; made once \<open>done\<close> is true it returns the state it was
  given (agents, dirty tiles and all counters unchanged) and prints nothing.
\<close>

theorem tick_counter_and_idempotence:
  "\<exists>m' out. step m ch = Inr (m', out) \<and>
     (if is_done m then m' = m \<and> out = [] else current_step m' = current_step m + 1)"
proof (cases "is_done m")
  case True
  then show ?thesis by (simp add: step_done)
next
  case False
  obtain m' out where s: "step m ch = Inr (m', out)" using step_total by blast
  from step_current_step [OF s False] s False show ?thesis by simp
qed

theorem tick_counter_and_idempotence_witness:
  "step \<lparr>grid = \<lparr>width = 1, height = 6\<rparr>,
          agents = [\<lparr>unique_id = 0, pos = (0, 4), next_pos = Some (0, 4), moves_made = 1\<rparr>],
          dirty_tiles = [], dirty_count = 1, max_steps = 5, current_step = 2,
          is_done = True, cleaned_count = 1, last_cleaned_step = Some 2\<rparr> (always 1) =
     Inr (\<lparr>grid = \<lparr>width = 1, height = 6\<rparr>,
          agents = [\<lparr>unique_id = 0, pos = (0, 4), next_pos = Some (0, 4), moves_made = 1\<rparr>],
          dirty_tiles = [], dirty_count = 1, max_steps = 5, current_step = 2,
          is_done = True, cleaned_count = 1, last_cleaned_step = Some 2\<rparr>, []) \<and>
   (\<exists>m' out. step \<lparr>grid = \<lparr>width = 1, height = 6\<rparr>,
          agents = [\<lparr>unique_id = 0, pos = (0, 5), next_pos = None, moves_made = 0\<rparr>],
          dirty_tiles = [(0, 0)], dirty_count = 1, max_steps = 5, current_step = 0,
          is_done = False, cleaned_count = 0, last_cleaned_step = None\<rparr> (always 3) = Inr (m', out) \<and>
      current_step m' = 1)"
proof -
  let ?g = "\<lparr>width = 1, height = 6\<rparr>"
  let ?d = "\<lparr>grid = ?g,
          agents = [\<lparr>unique_id = 0, pos = (0, 4), next_pos = Some (0, 4), moves_made = 1\<rparr>],
          dirty_tiles = [], dirty_count = 1, max_steps = 5, current_step = 2,
          is_done = True, cleaned_count = 1, last_cleaned_step = Some 2\<rparr>"
  let ?r = "\<lparr>grid = ?g,
          agents = [\<lparr>unique_id = 0, pos = (0, 5), next_pos = None, moves_made = 0\<rparr>],
          dirty_tiles = [(0, 0)], dirty_count = 1, max_steps = 5, current_step = 0,
          is_done = False, cleaned_count = 0, last_cleaned_step = None\<rparr>"
  from tick_counter_and_idempotence [of ?d "always 1"]
  have A: "step ?d (always 1) = Inr (?d, [])" by auto
  from tick_counter_and_idempotence [of ?r "always 3"]
  have B: "\<exists>m' out. step ?r (always 3) = Inr (m', out) \<and> current_step m' = 1" by auto
  from A B show ?thesis by blast
qed

lemma occupied_iff: "occupied as c \<longleftrightarrow> c \<in> pos ` set as"
  by (auto simp: occupied_def list_ex_iff)

lemma step_unoccupied:
  assumes "step m ch = Inr (m', out)"
    and "set (dirty_tiles m) \<inter> pos ` set (agents m) = {}"
  shows "set (dirty_tiles m') \<inter> pos ` set (agents m') = {}"
proof (cases "is_done m")
  case True
  with assms show ?thesis by (simp add: step_done)
next
  case False
  from step_dirty_tiles [OF assms(1) False] show ?thesis
    by (auto simp: occupied_iff)
qed

lemma init_unoccupied:
  assumes "DummyModel_init h w na nd ns rnd = Inr m"
  shows "set (dirty_tiles m) \<subseteq> {c. in_bounds (grid m) c \<and> \<not> occupied (agents m) c}"
  using DummyModel_init_props(4) [OF assms] by (auto simp: set_free_cells)

lemma run_unoccupied:
  assumes "run m chs = Inr (m', out)"
    and "set (dirty_tiles m) \<inter> pos ` set (agents m) = {}"
  shows "set (dirty_tiles m') \<inter> pos ` set (agents m') = {}"
  using assms(1,2)
  by (rule run_invariant [where P = "\<lambda>m. set (dirty_tiles m) \<inter> pos ` set (agents m) = {}"])
     (rule step_unoccupied)

text \<open>
  C10. Right after a successful construction, and after any sequence of \<open>step\<close> calls
  from there, no remaining dirty tile is the position of an agent: the constructor
  spawns the tiles on cells of the grid that hold no agent, and a \<open>step\<close> made while
  \<open>done\<close> is false keeps exactly the tiles that no agent occupies after the commit
  phase.
\<close>

theorem dirty_tiles_unoccupied:
  "(DummyModel_init h w na nd ns rnd = Inr m0 \<longrightarrow>
      set (dirty_tiles m0) \<subseteq> {c. in_bounds (grid m0) c \<and> \<not> occupied (agents m0) c} \<and>
      (\<exists>m out. run m0 chs = Inr (m, out) \<and>
         set (dirty_tiles m) \<inter> pos ` set (agents m) = {})) \<and>
   (step m1 ch = Inr (m2, out2) \<and> \<not> is_done m1 \<longrightarrow>
      dirty_tiles m2 = filter (\<lambda>t. \<not> occupied (agents m2) t) (dirty_tiles m1))"
proof (intro conjI impI)
  assume init: "DummyModel_init h w na nd ns rnd = Inr m0"
  show sub: "set (dirty_tiles m0) \<subseteq> {c. in_bounds (grid m0) c \<and> \<not> occupied (agents m0) c}"
    using init by (rule init_unoccupied)
  obtain m out where r: "run m0 chs = Inr (m, out)" using run_total by blast
  have "set (dirty_tiles m0) \<inter> pos ` set (agents m0) = {}"
    using sub by (auto simp: occupied_iff)
  with r have "set (dirty_tiles m) \<inter> pos ` set (agents m) = {}" by (rule run_unoccupied)
  with r show "\<exists>m out. run m0 chs = Inr (m, out) \<and>
         set (dirty_tiles m) \<inter> pos ` set (agents m) = {}"
    by blast
next
  assume "step m1 ch = Inr (m2, out2) \<and> \<not> is_done m1"
  then show "dirty_tiles m2 = filter (\<lambda>t. \<not> occupied (agents m2) t) (dirty_tiles m1)"
    using step_dirty_tiles by blast
qed

theorem dirty_tiles_unoccupied_witness:
  "DummyModel_init 6 1 2 1 5 (always 4) =
     Inr \<lparr>grid = \<lparr>width = 1, height = 6\<rparr>,
          agents = [\<lparr>unique_id = 0, pos = (0, 5), next_pos = None, moves_made = 0\<rparr>,
                    \<lparr>unique_id = 1, pos = (0, 5), next_pos = None, moves_made = 0\<rparr>],
          dirty_tiles = [(0, 4)], dirty_count = 1, max_steps = 5, current_step = 0,
          is_done = False, cleaned_count = 0, last_cleaned_step = None\<rparr> \<and>
   (\<exists>m out. run \<lparr>grid = \<lparr>width = 1, height = 6\<rparr>,
          agents = [\<lparr>unique_id = 0, pos = (0, 5), next_pos = None, moves_made = 0\<rparr>,
                    \<lparr>unique_id = 1, pos = (0, 5), next_pos = None, moves_made = 0\<rparr>],
          dirty_tiles = [(0, 4)], dirty_count = 1, max_steps = 5, current_step = 0,
          is_done = False, cleaned_count = 0, last_cleaned_step = None\<rparr> [always 3] = Inr (m, out) \<and>
      set (dirty_tiles m) \<inter> pos ` set (agents m) = {}) \<and>
   step \<lparr>grid = \<lparr>width = 1, height = 6\<rparr>,
          agents = [\<lparr>unique_id = 0, pos = (0, 5), next_pos = None, moves_made = 0\<rparr>,
                    \<lparr>unique_id = 1, pos = (0, 5), next_pos = None, moves_made = 0\<rparr>],
          dirty_tiles = [(0, 4)], dirty_count = 1, max_steps = 5, current_step = 0,
          is_done = False, cleaned_count = 0, last_cleaned_step = None\<rparr> (always 3) =
     Inr (\<lparr>grid = \<lparr>width = 1, height = 6\<rparr>,
          agents = [\<lparr>unique_id = 0, pos = (0, 4), next_pos = Some (0, 4), moves_made = 1\<rparr>,
                    \<lparr>unique_id = 1, pos = (0, 4), next_pos = Some (0, 4), moves_made = 1\<rparr>],
          dirty_tiles = [], dirty_count = 1, max_steps = 5, current_step = 1,
          is_done = True, cleaned_count = 1, last_cleaned_step = Some 1\<rparr>,
        [''All dirty tiles cleaned at step 1.'', ''Total tiles cleaned: 1'',
         ''Total agent moves: 2'']) \<and>
   filter (\<lambda>t. \<not> occupied
        [\<lparr>unique_id = 0, pos = (0, 4), next_pos = Some (0, 4), moves_made = 1\<rparr>,
         \<lparr>unique_id = 1, pos = (0, 4), next_pos = Some (0, 4), moves_made = 1\<rparr>] t) [(0, 4)] = []"
proof -
  let ?a0 = "\<lparr>unique_id = 0, pos = (0, 5), next_pos = None, moves_made = 0\<rparr>"
  let ?a1 = "\<lparr>unique_id = 1, pos = (0, 5), next_pos = None, moves_made = 0\<rparr>"
  let ?b0 = "\<lparr>unique_id = 0, pos = (0, 4), next_pos = Some (0, 4), moves_made = 1\<rparr>"
  let ?b1 = "\<lparr>unique_id = 1, pos = (0, 4), next_pos = Some (0, 4), moves_made = 1\<rparr>"
  let ?m0 = "\<lparr>grid = \<lparr>width = 1, height = 6\<rparr>, agents = [?a0, ?a1],
          dirty_tiles = [(0, 4)], dirty_count = 1, max_steps = 5, current_step = 0,
          is_done = False, cleaned_count = 0, last_cleaned_step = None\<rparr>"
  let ?m1 = "\<lparr>grid = \<lparr>width = 1, height = 6\<rparr>, agents = [?b0, ?b1],
          dirty_tiles = [], dirty_count = 1, max_steps = 5, current_step = 1,
          is_done = True, cleaned_count = 1, last_cleaned_step = Some 1\<rparr>"
  let ?out = "[''All dirty tiles cleaned at step 1.'', ''Total tiles cleaned: 1'',
         ''Total agent moves: 2'']"
  have init: "DummyModel_init 6 1 2 1 5 (always 4) = Inr ?m0"
    by code_simp
  have st: "step ?m0 (always 3) = Inr (?m1, ?out)"
    by code_simp
  have nd: "\<not> is_done ?m0" by simp
  note T = dirty_tiles_unoccupied [where h = 6 and w = 1 and na = 2 and nd = 1 and ns = 5
      and rnd = "always 4" and ?m0.0 = ?m0 and chs = "[always 3]" and ?m1.0 = ?m0
      and ch = "always 3" and ?m2.0 = ?m1 and ?out2.0 = ?out]
  from T init have A: "\<exists>m out. run ?m0 [always 3] = Inr (m, out) \<and>
      set (dirty_tiles m) \<inter> pos ` set (agents m) = {}"
    by blast
  from T st nd have "dirty_tiles ?m1 = filter (\<lambda>t. \<not> occupied (agents ?m1) t) (dirty_tiles ?m0)"
    by blast
  then have B: "filter (\<lambda>t. \<not> occupied [?b0, ?b1] t) [(0, 4)] = []"
    by simp
  from init A st B show ?thesis by blast
qed

lemma step_conservation:
  assumes "step m ch = Inr (m', out)"
  shows "cleaned_count m' + int (length (dirty_tiles m')) =
         cleaned_count m + int (length (dirty_tiles m))"
proof (cases "is_done m")
  case True
  with assms show ?thesis by (simp add: step_done)
next
  case False
  have "length (filter (occupied (agents m')) (dirty_tiles m)) +
        length (filter (\<lambda>t. \<not> occupied (agents m') t) (dirty_tiles m)) = length (dirty_tiles m)"
    by (rule sum_length_filter_compl)
  with step_dirty_tiles [OF assms False] step_cleaned_count [OF assms False]
  show ?thesis by simp
qed

lemma step_cleaned_mono:
  assumes "step m ch = Inr (m', out)"
  shows "cleaned_count m \<le> cleaned_count m'"
proof (cases "is_done m")
  case True
  with assms show ?thesis by (simp add: step_done)
next
  case False
  from step_cleaned_count [OF assms False] show ?thesis by simp
qed

lemma step_distinct:
  assumes "step m ch = Inr (m', out)" and "distinct (dirty_tiles m)"
  shows "distinct (dirty_tiles m')"
proof (cases "is_done m")
  case True
  with assms show ?thesis by (simp add: step_done)
next
  case False
  from step_dirty_tiles [OF assms(1) False] assms(2) show ?thesis by simp
qed

lemma run_accounting:
  assumes "run m chs = Inr (m', out)" and "distinct (dirty_tiles m)"
  shows "distinct (dirty_tiles m') \<and>
         cleaned_count m' + int (length (dirty_tiles m')) =
           cleaned_count m + int (length (dirty_tiles m)) \<and>
         cleaned_count m \<le> cleaned_count m'"
  using assms(1)
proof (rule run_invariant [where P = "\<lambda>x. distinct (dirty_tiles x) \<and>
         cleaned_count x + int (length (dirty_tiles x)) =
           cleaned_count m + int (length (dirty_tiles m)) \<and>
         cleaned_count m \<le> cleaned_count x"])
  show "distinct (dirty_tiles m) \<and>
      cleaned_count m + int (length (dirty_tiles m)) = cleaned_count m + int (length (dirty_tiles m)) \<and>
      cleaned_count m \<le> cleaned_count m"
    using assms(2) by simp
next
  fix x ch x' out'
  assume P: "distinct (dirty_tiles x) \<and>
         cleaned_count x + int (length (dirty_tiles x)) =
           cleaned_count m + int (length (dirty_tiles m)) \<and>
         cleaned_count m \<le> cleaned_count x"
    and s: "step x ch = Inr (x', out')"
  from step_conservation [OF s] step_cleaned_mono [OF s] step_distinct [OF s] P
  show "distinct (dirty_tiles x') \<and>
         cleaned_count x' + int (length (dirty_tiles x')) =
           cleaned_count m + int (length (dirty_tiles m)) \<and>
         cleaned_count m \<le> cleaned_count x'"
    by simp
qed

lemma step_cleaned_card:
  assumes "step m ch = Inr (m', out)" and "\<not> is_done m" and "distinct (dirty_tiles m)"
  shows "cleaned_count m' =
     cleaned_count m + int (card {t \<in> set (dirty_tiles m). occupied (agents m') t})"
proof -
  have "length (filter (occupied (agents m')) (dirty_tiles m)) =
        card {t \<in> set (dirty_tiles m). occupied (agents m') t}"
    using assms(3) distinct_card [of "filter (occupied (agents m')) (dirty_tiles m)"]
    by simp
  with step_cleaned_count [OF assms(1,2)] show ?thesis by simp
qed

text \<open>
  C4. In every state reached from a successful construction, \<open>cleaned_count\<close> plus the
  number of remaining dirty tiles is the initial number of dirty tiles, \<open>cleaned_count\<close>
  lies between 0 and that number, and the remaining tiles are pairwise distinct. A
  further \<open>step\<close> never decreases \<open>cleaned_count\<close>; made while \<open>done\<close> is false it
  removes exactly the tiles occupied after the commit phase and adds to
  \<open>cleaned_count\<close> the number of those cells, each counted once however many agents
  stand on it.
\<close>

theorem cleaned_count_accounting:
  "DummyModel_init h w na nd ns rnd = Inr m0 \<longrightarrow>
     (\<exists>m out. run m0 chs = Inr (m, out) \<and>
        cleaned_count m + int (length (dirty_tiles m)) = int (length (dirty_tiles m0)) \<and>
        0 \<le> cleaned_count m \<and> cleaned_count m \<le> int (length (dirty_tiles m0)) \<and>
        distinct (dirty_tiles m) \<and>
        (\<exists>m' out'. step m ch = Inr (m', out') \<and>
            cleaned_count m \<le> cleaned_count m' \<and>
            (\<not> is_done m \<longrightarrow>
               dirty_tiles m' = filter (\<lambda>t. \<not> occupied (agents m') t) (dirty_tiles m) \<and>
               cleaned_count m' =
                 cleaned_count m + int (card {t \<in> set (dirty_tiles m). occupied (agents m') t}))))"
proof
  assume init: "DummyModel_init h w na nd ns rnd = Inr m0"
  note p = DummyModel_init_props [OF init]
  obtain m out where r: "run m0 chs = Inr (m, out)" using run_total by blast
  obtain m' out' where s: "step m ch = Inr (m', out')" using step_total by blast
  from run_accounting [OF r p(3)] p(10)
  have acc: "distinct (dirty_tiles m)"
    "cleaned_count m + int (length (dirty_tiles m)) = int (length (dirty_tiles m0))"
    "0 \<le> cleaned_count m"
    by simp_all
  then have le: "cleaned_count m \<le> int (length (dirty_tiles m0))" by linarith
  have "\<not> is_done m \<longrightarrow>
               dirty_tiles m' = filter (\<lambda>t. \<not> occupied (agents m') t) (dirty_tiles m) \<and>
               cleaned_count m' =
                 cleaned_count m + int (card {t \<in> set (dirty_tiles m). occupied (agents m') t})"
    using step_dirty_tiles [OF s] step_cleaned_card [OF s _ acc(1)] by blast
  with r s acc le step_cleaned_mono [OF s]
  show "\<exists>m out. run m0 chs = Inr (m, out) \<and>
        cleaned_count m + int (length (dirty_tiles m)) = int (length (dirty_tiles m0)) \<and>
        0 \<le> cleaned_count m \<and> cleaned_count m \<le> int (length (dirty_tiles m0)) \<and>
        distinct (dirty_tiles m) \<and>
        (\<exists>m' out'. step m ch = Inr (m', out') \<and>
            cleaned_count m \<le> cleaned_count m' \<and>
            (\<not> is_done m \<longrightarrow>
               dirty_tiles m' = filter (\<lambda>t. \<not> occupied (agents m') t) (dirty_tiles m) \<and>
               cleaned_count m' =
                 cleaned_count m + int (card {t \<in> set (dirty_tiles m). occupied (agents m') t})))"
    by blast
qed

theorem cleaned_count_accounting_witness:
  "DummyModel_init 6 6 3 5 100 (always 0) =
     Inr \<lparr>grid = \<lparr>width = 6, height = 6\<rparr>,
          agents = [\<lparr>unique_id = 0, pos = (0, 5), next_pos = None, moves_made = 0\<rparr>,
                    \<lparr>unique_id = 1, pos = (0, 5), next_pos = None, moves_made = 0\<rparr>,
                    \<lparr>unique_id = 2, pos = (0, 5), next_pos = None, moves_made = 0\<rparr>],
          dirty_tiles = [(0, 0), (0, 1), (0, 2), (0, 3), (0, 4)], dirty_count = 5,
          max_steps = 100, current_step = 0, is_done = False, cleaned_count = 0,
          last_cleaned_step = None\<rparr> \<and>
   step \<lparr>grid = \<lparr>width = 6, height = 6\<rparr>,
          agents = [\<lparr>unique_id = 0, pos = (0, 5), next_pos = None, moves_made = 0\<rparr>,
                    \<lparr>unique_id = 1, pos = (0, 5), next_pos = None, moves_made = 0\<rparr>,
                    \<lparr>unique_id = 2, pos = (0, 5), next_pos = None, moves_made = 0\<rparr>],
          dirty_tiles = [(0, 0), (0, 1), (0, 2), (0, 3), (0, 4)], dirty_count = 5,
          max_steps = 100, current_step = 0, is_done = False, cleaned_count = 0,
          last_cleaned_step = None\<rparr> (always 3) =
     Inr (\<lparr>grid = \<lparr>width = 6, height = 6\<rparr>,
          agents = [\<lparr>unique_id = 0, pos = (0, 4), next_pos = Some (0, 4), moves_made = 1\<rparr>,
                    \<lparr>unique_id = 1, pos = (0, 4), next_pos = Some (0, 4), moves_made = 1\<rparr>,
                    \<lparr>unique_id = 2, pos = (0, 4), next_pos = Some (0, 4), moves_made = 1\<rparr>],
          dirty_tiles = [(0, 0), (0, 1), (0, 2), (0, 3)], dirty_count = 5,
          max_steps = 100, current_step = 1, is_done = False, cleaned_count = 1,
          last_cleaned_step = Some 1\<rparr>, []) \<and>
   (\<exists>m out. run \<lparr>grid = \<lparr>width = 6, height = 6\<rparr>,
          agents = [\<lparr>unique_id = 0, pos = (0, 5), next_pos = None, moves_made = 0\<rparr>,
                    \<lparr>unique_id = 1, pos = (0, 5), next_pos = None, moves_made = 0\<rparr>,
                    \<lparr>unique_id = 2, pos = (0, 5), next_pos = None, moves_made = 0\<rparr>],
          dirty_tiles = [(0, 0), (0, 1), (0, 2), (0, 3), (0, 4)], dirty_count = 5,
          max_steps = 100, current_step = 0, is_done = False, cleaned_count = 0,
          last_cleaned_step = None\<rparr> [always 3, always 1] = Inr (m, out) \<and>
        cleaned_count m + int (length (dirty_tiles m)) = 5 \<and>
        0 \<le> cleaned_count m \<and> cleaned_count m \<le> 5 \<and> distinct (dirty_tiles m) \<and>
        (\<exists>m' out'. step m (always 3) = Inr (m', out') \<and> cleaned_count m \<le> cleaned_count m'))"
proof -
  let ?g = "\<lparr>width = 6, height = 6\<rparr>"
  let ?m0 = "\<lparr>grid = ?g,
          agents = [\<lparr>unique_id = 0, pos = (0, 5), next_pos = None, moves_made = 0\<rparr>,
                    \<lparr>unique_id = 1, pos = (0, 5), next_pos = None, moves_made = 0\<rparr>,
                    \<lparr>unique_id = 2, pos = (0, 5), next_pos = None, moves_made = 0\<rparr>],
          dirty_tiles = [(0, 0), (0, 1), (0, 2), (0, 3), (0, 4)], dirty_count = 5,
          max_steps = 100, current_step = 0, is_done = False, cleaned_count = 0,
          last_cleaned_step = None\<rparr>"
  let ?m1 = "\<lparr>grid = ?g,
          agents = [\<lparr>unique_id = 0, pos = (0, 4), next_pos = Some (0, 4), moves_made = 1\<rparr>,
                    \<lparr>unique_id = 1, pos = (0, 4), next_pos = Some (0, 4), moves_made = 1\<rparr>,
                    \<lparr>unique_id = 2, pos = (0, 4), next_pos = Some (0, 4), moves_made = 1\<rparr>],
          dirty_tiles = [(0, 0), (0, 1), (0, 2), (0, 3)], dirty_count = 5,
          max_steps = 100, current_step = 1, is_done = False, cleaned_count = 1,
          last_cleaned_step = Some 1\<rparr>"
  have init: "DummyModel_init 6 6 3 5 100 (always 0) = Inr ?m0"
    by code_simp
  have st: "step ?m0 (always 3) = Inr (?m1, [])"
    by code_simp
  note T = cleaned_count_accounting [where h = 6 and w = 6 and na = 3 and nd = 5 and ns = 100
      and rnd = "always 0" and ?m0.0 = ?m0 and chs = "[always 3, always 1]" and ch = "always 3"]
  from T init have "\<exists>m out. run ?m0 [always 3, always 1] = Inr (m, out) \<and>
        cleaned_count m + int (length (dirty_tiles m)) = int (length (dirty_tiles ?m0)) \<and>
        0 \<le> cleaned_count m \<and> cleaned_count m \<le> int (length (dirty_tiles ?m0)) \<and>
        distinct (dirty_tiles m) \<and>
        (\<exists>m' out'. step m (always 3) = Inr (m', out') \<and> cleaned_count m \<le> cleaned_count m')"
    by blast
  then have A: "\<exists>m out. run ?m0 [always 3, always 1] = Inr (m, out) \<and>
        cleaned_count m + int (length (dirty_tiles m)) = 5 \<and>
        0 \<le> cleaned_count m \<and> cleaned_count m \<le> 5 \<and> distinct (dirty_tiles m) \<and>
        (\<exists>m' out'. step m (always 3) = Inr (m', out') \<and> cleaned_count m \<le> cleaned_count m')"
    by (simp del: run.simps)
  from init st A show ?thesis by blast
qed

lemma advance_change:
  "advance g a = Inr a' \<Longrightarrow>
     unique_id a' = unique_id a \<and>
     moves_made a' = moves_made a + (if pos a' \<noteq> pos a then 1 else 0)"
  by (auto simp: advance_eq split: option.splits if_splits)

lemma advance_agents_change:
  "advance_agents g as = Inr as' \<Longrightarrow>
     list_all2 (\<lambda>a a'. unique_id a' = unique_id a \<and>
        moves_made a' = moves_made a + (if pos a' \<noteq> pos a then 1 else 0)) as as'"
proof (induction as arbitrary: as')
  case Nil
  then show ?case by simp
next
  case (Cons a as)
  from Cons.prems obtain x xs where
    x: "advance g a = Inr x" and xs: "advance_agents g as = Inr xs" and eq: "as' = x # xs"
    by (auto split: sum.splits)
  from advance_change [OF x] Cons.IH [OF xs] eq show ?case
    by (simp split del: if_split)
qed

lemma step_agents_change:
  "list_all2 (\<lambda>a a'. unique_id a' = unique_id a \<and> pos a' = pos a \<and> moves_made a' = moves_made a)
     as (step_agents g ch as)"
  by (induction as arbitrary: ch) auto

lemma step_change:
  assumes "step m ch = Inr (m', out)"
  shows "list_all2 (\<lambda>a a'. unique_id a' = unique_id a \<and>
        moves_made a' = moves_made a + (if pos a' \<noteq> pos a then 1 else 0)) (agents m) (agents m')"
proof (cases "is_done m")
  case True
  with assms show ?thesis by (simp add: step_done list_all2_same)
next
  case False
  let ?mid = "step_agents (grid m) ch (agents m)"
  have a: "list_all2 (\<lambda>a a'. unique_id a' = unique_id a \<and> pos a' = pos a \<and> moves_made a' = moves_made a)
     (agents m) ?mid"
    by (rule step_agents_change)
  have b: "list_all2 (\<lambda>a a'. unique_id a' = unique_id a \<and>
        moves_made a' = moves_made a + (if pos a' \<noteq> pos a then 1 else 0)) ?mid (agents m')"
    using step_agents_of [OF assms False] by (rule advance_agents_change)
  from list_all2_trans [where ?P1.0 = "\<lambda>a a'. unique_id a' = unique_id a \<and> pos a' = pos a \<and> moves_made a' = moves_made a"
      and ?P2.0 = "\<lambda>a a'. unique_id a' = unique_id a \<and>
        moves_made a' = moves_made a + (if pos a' \<noteq> pos a then 1 else 0)"
      and ?P3.0 = "\<lambda>a a'. unique_id a' = unique_id a \<and>
        moves_made a' = moves_made a + (if pos a' \<noteq> pos a then 1 else 0)", OF _ a b]
  show ?thesis by simp
qed

lemma sum_moves_change:
  "list_all2 (\<lambda>a a'. unique_id a' = unique_id a \<and>
        moves_made a' = moves_made a + (if pos a' \<noteq> pos a then 1 else 0)) as as' \<Longrightarrow>
   sum_list (map moves_made as') = sum_list (map moves_made as) + position_changes as as'"
  by (induction as as' rule: list_all2_induct) (auto simp: position_changes_def)

lemma observed_changes_run:
  "run m chs = Inr (m', out) \<Longrightarrow>
   observed_changes m chs =
     Inr (sum_list (map moves_made (agents m')) - sum_list (map moves_made (agents m)))"
proof (induction chs arbitrary: m out)
  case Nil
  then show ?case by simp
next
  case (Cons ch chs)
  from Cons.prems obtain m1 out1 out2 where
    s: "step m ch = Inr (m1, out1)" and r: "run m1 chs = Inr (m', out2)"
    by (rule run_Cons)
  from sum_moves_change [OF step_change [OF s]] Cons.IH [OF r] s
  show ?case by simp
qed

lemma init_moves_zero:
  assumes "DummyModel_init h w na nd ns rnd = Inr m"
  shows "sum_list (map moves_made (agents m)) = 0"
proof -
  from create_agents_props [OF DummyModel_init_props(2) [OF assms]]
  have "list_all (\<lambda>a. moves_made a = 0) (agents m)"
    by (simp add: list_all_iff)
  moreover have "list_all (\<lambda>a. moves_made a = 0) as \<Longrightarrow> sum_list (map moves_made as) = 0"
    for as :: "agent list"
    by (induction as) auto
  ultimately show ?thesis by blast
qed

text \<open>
  C6. \<open>advance\<close> always returns; it increases \<open>moves_made\<close> by exactly 1 if and only
  if the position it leaves differs from the position it found, and leaves \<open>moves_made\<close>
  unchanged if and only if the position is unchanged; when the intent is the current
  position (the fallback of \<open>intent\<close>) the agent is unchanged. \<open>intent\<close> changes neither
  \<open>pos\<close> nor \<open>moves_made\<close>. In a \<open>step\<close>, agent by agent, the identifier is kept and
  \<open>moves_made\<close> grows by 1 exactly when the position after the tick differs from the one
  before it; the agents after a running tick are those \<open>advance\<close> returns on the agents
  after the intent phase, whose positions are still the pre-tick ones. Over any run
  from a successful construction, the sum of \<open>moves_made\<close> over the agents equals the
  number of position changes observed tick by tick.
\<close>

theorem moves_made_counts_position_changes:
  "(\<exists>a'. advance g a = Inr a' \<and>
      (moves_made a' = moves_made a + 1 \<longleftrightarrow> pos a' \<noteq> pos a) \<and>
      (moves_made a' = moves_made a \<longleftrightarrow> pos a' = pos a)) \<and>
   (next_pos b = Some (pos b) \<longrightarrow> advance g b = Inr b) \<and>
   pos (intent g r a) = pos a \<and> moves_made (intent g r a) = moves_made a \<and>
   (step m ch = Inr (m', out) \<longrightarrow>
      list_all2 (\<lambda>a a'. unique_id a' = unique_id a \<and>
         moves_made a' = moves_made a + (if pos a' \<noteq> pos a then 1 else 0)) (agents m) (agents m') \<and>
      (\<not> is_done m \<longrightarrow>
         map pos (step_agents (grid m) ch (agents m)) = map pos (agents m) \<and>
         advance_agents (grid m) (step_agents (grid m) ch (agents m)) = Inr (agents m'))) \<and>
   (DummyModel_init h w na nd ns rnd = Inr m0 \<longrightarrow>
      (\<exists>mf outf. run m0 chs = Inr (mf, outf) \<and>
         observed_changes m0 chs = Inr (sum_list (map moves_made (agents mf)))))"
proof (intro conjI impI)
  obtain a' where a': "advance g a = Inr a'" by (simp add: advance_eq)
  from advance_change [OF a'] a'
  show "\<exists>a'. advance g a = Inr a' \<and>
      (moves_made a' = moves_made a + 1 \<longleftrightarrow> pos a' \<noteq> pos a) \<and>
      (moves_made a' = moves_made a \<longleftrightarrow> pos a' = pos a)"
    by (intro exI [of _ a']) auto
next
  assume "next_pos b = Some (pos b)"
  then show "advance g b = Inr b" by (simp add: advance_eq)
next
  show "pos (intent g r a) = pos a" by simp
  show "moves_made (intent g r a) = moves_made a" by simp
next
  assume s: "step m ch = Inr (m', out)"
  then show "list_all2 (\<lambda>a a'. unique_id a' = unique_id a \<and>
         moves_made a' = moves_made a + (if pos a' \<noteq> pos a then 1 else 0)) (agents m) (agents m')"
    by (rule step_change)
  assume nd: "\<not> is_done m"
  show "map pos (step_agents (grid m) ch (agents m)) = map pos (agents m)" by simp
  show "advance_agents (grid m) (step_agents (grid m) ch (agents m)) = Inr (agents m')"
    using s nd by (rule step_agents_of)
next
  assume init: "DummyModel_init h w na nd ns rnd = Inr m0"
  obtain mf outf where r: "run m0 chs = Inr (mf, outf)" using run_total by blast
  from observed_changes_run [OF r] init_moves_zero [OF init] r
  show "\<exists>mf outf. run m0 chs = Inr (mf, outf) \<and>
         observed_changes m0 chs = Inr (sum_list (map moves_made (agents mf)))"
    by simp
qed

theorem moves_made_counts_position_changes_witness:
  "DummyModel_init 6 6 2 1 5 (always 0) =
     Inr \<lparr>grid = \<lparr>width = 6, height = 6\<rparr>,
          agents = [\<lparr>unique_id = 0, pos = (0, 5), next_pos = None, moves_made = 0\<rparr>,
                    \<lparr>unique_id = 1, pos = (0, 5), next_pos = None, moves_made = 0\<rparr>],
          dirty_tiles = [(0, 0)], dirty_count = 1, max_steps = 5, current_step = 0,
          is_done = False, cleaned_count = 0, last_cleaned_step = None\<rparr> \<and>
   advance \<lparr>width = 6, height = 6\<rparr>
       \<lparr>unique_id = 0, pos = (0, 5), next_pos = Some (0, 5), moves_made = 0\<rparr> =
     Inr \<lparr>unique_id = 0, pos = (0, 5), next_pos = Some (0, 5), moves_made = 0\<rparr> \<and>
   step \<lparr>grid = \<lparr>width = 6, height = 6\<rparr>,
          agents = [\<lparr>unique_id = 0, pos = (0, 5), next_pos = None, moves_made = 0\<rparr>,
                    \<lparr>unique_id = 1, pos = (0, 5), next_pos = None, moves_made = 0\<rparr>],
          dirty_tiles = [(0, 0)], dirty_count = 1, max_steps = 5, current_step = 0,
          is_done = False, cleaned_count = 0, last_cleaned_step = None\<rparr> (always 1) =
     Inr (\<lparr>grid = \<lparr>width = 6, height = 6\<rparr>,
          agents = [\<lparr>unique_id = 0, pos = (1, 5), next_pos = Some (1, 5), moves_made = 1\<rparr>,
                    \<lparr>unique_id = 1, pos = (1, 5), next_pos = Some (1, 5), moves_made = 1\<rparr>],
          dirty_tiles = [(0, 0)], dirty_count = 1, max_steps = 5, current_step = 1,
          is_done = False, cleaned_count = 0, last_cleaned_step = None\<rparr>, []) \<and>
   advance_agents \<lparr>width = 6, height = 6\<rparr>
       (step_agents \<lparr>width = 6, height = 6\<rparr> (always 1)
          [\<lparr>unique_id = 0, pos = (0, 5), next_pos = None, moves_made = 0\<rparr>,
           \<lparr>unique_id = 1, pos = (0, 5), next_pos = None, moves_made = 0\<rparr>]) =
     Inr [\<lparr>unique_id = 0, pos = (1, 5), next_pos = Some (1, 5), moves_made = 1\<rparr>,
          \<lparr>unique_id = 1, pos = (1, 5), next_pos = Some (1, 5), moves_made = 1\<rparr>] \<and>
   observed_changes \<lparr>grid = \<lparr>width = 6, height = 6\<rparr>,
          agents = [\<lparr>unique_id = 0, pos = (0, 5), next_pos = None, moves_made = 0\<rparr>,
                    \<lparr>unique_id = 1, pos = (0, 5), next_pos = None, moves_made = 0\<rparr>],
          dirty_tiles = [(0, 0)], dirty_count = 1, max_steps = 5, current_step = 0,
          is_done = False, cleaned_count = 0, last_cleaned_step = None\<rparr> [always 0, always 1] =
     Inr 2 \<and>
   (\<exists>mf outf. run \<lparr>grid = \<lparr>width = 6, height = 6\<rparr>,
          agents = [\<lparr>unique_id = 0, pos = (0, 5), next_pos = None, moves_made = 0\<rparr>,
                    \<lparr>unique_id = 1, pos = (0, 5), next_pos = None, moves_made = 0\<rparr>],
          dirty_tiles = [(0, 0)], dirty_count = 1, max_steps = 5, current_step = 0,
          is_done = False, cleaned_count = 0, last_cleaned_step = None\<rparr> [always 0, always 1] =
        Inr (mf, outf) \<and> sum_list (map moves_made (agents mf)) = 2)"
proof -
  let ?g = "\<lparr>width = 6, height = 6\<rparr>"
  let ?a0 = "\<lparr>unique_id = 0, pos = (0, 5), next_pos = None, moves_made = 0\<rparr>"
  let ?a1 = "\<lparr>unique_id = 1, pos = (0, 5), next_pos = None, moves_made = 0\<rparr>"
  let ?b = "\<lparr>unique_id = 0, pos = (0, 5), next_pos = Some (0, 5), moves_made = 0\<rparr>"
  let ?c0 = "\<lparr>unique_id = 0, pos = (1, 5), next_pos = Some (1, 5), moves_made = 1\<rparr>"
  let ?c1 = "\<lparr>unique_id = 1, pos = (1, 5), next_pos = Some (1, 5), moves_made = 1\<rparr>"
  let ?m0 = "\<lparr>grid = ?g, agents = [?a0, ?a1],
          dirty_tiles = [(0, 0)], dirty_count = 1, max_steps = 5, current_step = 0,
          is_done = False, cleaned_count = 0, last_cleaned_step = None\<rparr>"
  let ?m1 = "\<lparr>grid = ?g, agents = [?c0, ?c1],
          dirty_tiles = [(0, 0)], dirty_count = 1, max_steps = 5, current_step = 1,
          is_done = False, cleaned_count = 0, last_cleaned_step = None\<rparr>"
  have init: "DummyModel_init 6 6 2 1 5 (always 0) = Inr ?m0"
    by code_simp
  have st: "step ?m0 (always 1) = Inr (?m1, [])"
    by code_simp
  have obs: "observed_changes ?m0 [always 0, always 1] = Inr 2"
    by code_simp
  have nb: "next_pos ?b = Some (pos ?b)" by simp
  have nd: "\<not> is_done ?m0" by simp
  note T = moves_made_counts_position_changes [where h = 6 and w = 6 and na = 2 and nd = 1
      and ns = 5 and rnd = "always 0" and ?m0.0 = ?m0 and chs = "[always 0, always 1]"
      and g = ?g and b = ?b and m = ?m0 and ch = "always 1" and m' = ?m1 and out = "[]"]
  from T nb have B: "advance ?g ?b = Inr ?b" by blast
  from T st nd have "advance_agents (grid ?m0) (step_agents (grid ?m0) (always 1) (agents ?m0)) =
      Inr (agents ?m1)"
    by blast
  then have C: "advance_agents ?g (step_agents ?g (always 1) [?a0, ?a1]) = Inr [?c0, ?c1]"
    by (simp del: step_agents.simps advance_agents.simps)
  from T init obtain mf outf where r: "run ?m0 [always 0, always 1] = Inr (mf, outf)"
    and o: "observed_changes ?m0 [always 0, always 1] = Inr (sum_list (map moves_made (agents mf)))"
    by blast
  from o obs have "sum_list (map moves_made (agents mf)) = 2" by simp
  with r have D: "\<exists>mf outf. run ?m0 [always 0, always 1] = Inr (mf, outf) \<and>
      sum_list (map moves_made (agents mf)) = 2"
    by blast
  from init B st C obs D show ?thesis by blast
qed

text \<open>
  C7. \<open>spawn_dirty_tiles\<close> never raises. It appends to the dirty tiles as many cells as
  \<open>min(needed, len(free_cells))\<close> says (none when that number is negative, since the
  range is then empty), pairwise distinct and drawn from the free cells, which are the
  cells of the grid that hold no agent and are not dirty already. After a successful
  construction the registry therefore holds \<open>min(dirty_count, number of free cells)\<close>
  distinct agent-free cells for every requested count that is not negative: fewer than
  requested when the free cells run out, without an error.
\<close>

theorem spawn_dirty_tiles_sample:
  "(\<exists>d. spawn_dirty_tiles m rnd = Inr (m\<lparr>dirty_tiles := dirty_tiles m @ d\<rparr>) \<and>
        int (length d) =
          max 0 (min (dirty_count m - int (length (dirty_tiles m)))
                     (int (length (free_cells (grid m) (agents m) (dirty_tiles m))))) \<and>
        distinct d \<and>
        set d \<subseteq> {c. in_bounds (grid m) c \<and> \<not> occupied (agents m) c \<and> c \<notin> set (dirty_tiles m)}) \<and>
   distinct (free_cells (grid m) (agents m) (dirty_tiles m)) \<and>
   set (free_cells (grid m) (agents m) (dirty_tiles m)) =
     {c. in_bounds (grid m) c \<and> \<not> occupied (agents m) c \<and> c \<notin> set (dirty_tiles m)} \<and>
   (DummyModel_init h w na nd ns rnd = Inr m0 \<longrightarrow>
      int (length (dirty_tiles m0)) =
        max 0 (min nd (int (length (free_cells (grid m0) (agents m0) [])))) \<and>
      (0 \<le> nd \<longrightarrow>
         int (length (dirty_tiles m0)) = min nd (int (length (free_cells (grid m0) (agents m0) [])))) \<and>
      distinct (dirty_tiles m0) \<and>
      set (dirty_tiles m0) \<subseteq> {c. in_bounds (grid m0) c \<and> \<not> occupied (agents m0) c})"
proof (intro conjI impI)
  from spawn_dirty_tiles_props [of m rnd]
  show "\<exists>d. spawn_dirty_tiles m rnd = Inr (m\<lparr>dirty_tiles := dirty_tiles m @ d\<rparr>) \<and>
        int (length d) =
          max 0 (min (dirty_count m - int (length (dirty_tiles m)))
                     (int (length (free_cells (grid m) (agents m) (dirty_tiles m))))) \<and>
        distinct d \<and>
        set d \<subseteq> {c. in_bounds (grid m) c \<and> \<not> occupied (agents m) c \<and> c \<notin> set (dirty_tiles m)}"
    unfolding set_free_cells by (auto simp: max_def)
  show "distinct (free_cells (grid m) (agents m) (dirty_tiles m))"
    by (rule distinct_free_cells)
  show "set (free_cells (grid m) (agents m) (dirty_tiles m)) =
     {c. in_bounds (grid m) c \<and> \<not> occupied (agents m) c \<and> c \<notin> set (dirty_tiles m)}"
    by (rule set_free_cells)
next
  assume init: "DummyModel_init h w na nd ns rnd = Inr m0"
  note p = DummyModel_init_props [OF init]
  from p(5) show len: "int (length (dirty_tiles m0)) =
        max 0 (min nd (int (length (free_cells (grid m0) (agents m0) []))))"
    by (simp add: max_def)
  show "distinct (dirty_tiles m0)" by (rule p(3))
  show "set (dirty_tiles m0) \<subseteq> {c. in_bounds (grid m0) c \<and> \<not> occupied (agents m0) c}"
    using p(4) by (auto simp: set_free_cells)
  assume "0 \<le> nd"
  with len show "int (length (dirty_tiles m0)) = min nd (int (length (free_cells (grid m0) (agents m0) [])))"
    by simp
qed

theorem spawn_dirty_tiles_sample_witness:
  "DummyModel_init 6 1 1 10 5 (always 7) =
     Inr \<lparr>grid = \<lparr>width = 1, height = 6\<rparr>,
          agents = [\<lparr>unique_id = 0, pos = (0, 5), next_pos = None, moves_made = 0\<rparr>],
          dirty_tiles = [(0, 2), (0, 4), (0, 1), (0, 3), (0, 0)], dirty_count = 10,
          max_steps = 5, current_step = 0, is_done = False, cleaned_count = 0,
          last_cleaned_step = None\<rparr> \<and>
   free_cells \<lparr>width = 1, height = 6\<rparr>
       [\<lparr>unique_id = 0, pos = (0, 5), next_pos = None, moves_made = 0\<rparr>] [] =
     [(0, 0), (0, 1), (0, 2), (0, 3), (0, 4)] \<and>
   int (length [(0, 2), (0, 4), (0, 1), (0, 3), (0, 0 :: int)]) = min 10 5 \<and>
   distinct [(0, 2), (0, 4), (0, 1), (0, 3), (0, 0 :: int)] \<and>
   set [(0, 2), (0, 4), (0, 1), (0, 3), (0, 0)] \<subseteq>
     {c. in_bounds \<lparr>width = 1, height = 6\<rparr> c \<and>
         \<not> occupied [\<lparr>unique_id = 0, pos = (0, 5), next_pos = None, moves_made = 0\<rparr>] c}"
proof -
  let ?g = "\<lparr>width = 1, height = 6\<rparr>"
  let ?a = "\<lparr>unique_id = 0, pos = (0, 5), next_pos = None, moves_made = 0\<rparr>"
  let ?d = "[(0, 2), (0, 4), (0, 1), (0, 3), (0, 0 :: int)]"
  let ?m0 = "\<lparr>grid = ?g, agents = [?a], dirty_tiles = ?d, dirty_count = 10,
          max_steps = 5, current_step = 0, is_done = False, cleaned_count = 0,
          last_cleaned_step = None\<rparr>"
  have init: "DummyModel_init 6 1 1 10 5 (always 7) = Inr ?m0"
    by code_simp
  have free: "free_cells ?g [?a] [] = [(0, 0), (0, 1), (0, 2), (0, 3), (0, 4)]"
    by code_simp
  have nn: "(0::int) \<le> 10" by simp
  note T = spawn_dirty_tiles_sample [where h = 6 and w = 1 and na = 1 and nd = 10 and ns = 5
      and rnd = "always 7" and ?m0.0 = ?m0]
  from T init nn have
    "int (length (dirty_tiles ?m0)) = min 10 (int (length (free_cells (grid ?m0) (agents ?m0) [])))"
    and "distinct (dirty_tiles ?m0)"
    and "set (dirty_tiles ?m0) \<subseteq> {c. in_bounds (grid ?m0) c \<and> \<not> occupied (agents ?m0) c}"
    by blast+
  then have A: "int (length ?d) = min 10 5" and B: "distinct ?d"
    and C: "set ?d \<subseteq> {c. in_bounds ?g c \<and> \<not> occupied [?a] c}"
    by (simp_all add: free)
  from init free A B C show ?thesis by blast
qed

lemma run_done: "is_done m \<Longrightarrow> run m chs = Inr (m, [])"
  by (induction chs) (simp_all add: step_done)

lemma run_output:
  "run m0 chs = Inr (m, out) \<Longrightarrow> \<not> is_done m0 \<Longrightarrow>
     out = (if is_done m then print_summary m else [])"
proof (induction chs arbitrary: m0 out)
  case Nil
  then show ?case by auto
next
  case (Cons ch chs)
  from Cons.prems(1) obtain m1 out1 out2 where
    s: "step m0 ch = Inr (m1, out1)" and r: "run m1 chs = Inr (m, out2)"
    and o: "out = out1 @ out2"
    by (rule run_Cons)
  show ?case
  proof (cases "is_done m1")
    case True
    with r have "m = m1" "out2 = []" by (simp_all add: run_done)
    with step_out [OF s Cons.prems(2)] True o show ?thesis by simp
  next
    case False
    from step_out [OF s Cons.prems(2)] False have "out1 = []" by simp
    with Cons.IH [OF r False] o show ?thesis by simp
  qed
qed

lemma run_is_done:
  "run m0 chs = Inr (m, out) \<Longrightarrow> \<not> is_done m0 \<Longrightarrow> chs \<noteq> [] \<Longrightarrow>
     is_done m = (dirty_tiles m = [] \<or> max_steps m \<le> current_step m)"
proof (induction chs arbitrary: m0 out)
  case Nil
  then show ?case by simp
next
  case (Cons ch chs)
  from Cons.prems(1) obtain m1 out1 out2 where
    s: "step m0 ch = Inr (m1, out1)" and r: "run m1 chs = Inr (m, out2)"
    by (rule run_Cons)
  note d1 = step_is_done [OF s Cons.prems(2)]
  show ?case
  proof (cases "is_done m1")
    case True
    with r have "m = m1" by (simp add: run_done)
    with d1 show ?thesis by simp
  next
    case False
    show ?thesis
    proof (cases "chs = []")
      case True
      with r have "m = m1" by simp
      with d1 show ?thesis by simp
    next
      case ne: False
      from Cons.IH [OF r False ne] show ?thesis .
    qed
  qed
qed

text \<open>
  C3. Take any state reached by \<open>step\<close> calls from a state in which \<open>done\<close> is false
  (as it is after construction). After at least one tick, \<open>done\<close> holds exactly when
  the dirty list is empty or \<open>current_step >= max_steps\<close>. Everything printed so far is
  nothing while \<open>done\<close> is false, and exactly one summary, that of the current state,
  once it is true. A further \<open>step\<close> on a done state changes and prints nothing; on a
  running state it sets \<open>done\<close> exactly when its resulting state has an empty dirty
  list or has used up the step budget, and then prints the summary once: the
  all-cleaned lines (with \<open>last_cleaned_step\<close>, \<open>cleaned_count\<close> and the sum of
  \<open>moves_made\<close>) when the dirty list is empty, also if the budget is used up in the same
  tick, and otherwise the max-steps lines (with \<open>max_steps\<close>, \<open>current_step\<close>,
  \<open>cleaned_count\<close> and the sum of \<open>moves_made\<close>).
\<close>

theorem summary_at_termination:
  "\<not> is_done m0 \<and> run m0 chs = Inr (m, out) \<longrightarrow>
     (chs \<noteq> [] \<longrightarrow> is_done m = (dirty_tiles m = [] \<or> max_steps m \<le> current_step m)) \<and>
     out = (if is_done m then print_summary m else []) \<and>
     (\<exists>m' out'. step m ch = Inr (m', out') \<and>
        (if is_done m then m' = m \<and> out' = []
         else is_done m' = (dirty_tiles m' = [] \<or> max_steps m' \<le> current_step m') \<and>
              out' =
                (if dirty_tiles m' = [] then
                   [''All dirty tiles cleaned at step '' @ str_opt (last_cleaned_step m') @ ''.'',
                    ''Total tiles cleaned: '' @ str_int (cleaned_count m'),
                    ''Total agent moves: '' @ str_int (sum_list (map moves_made (agents m')))]
                 else if max_steps m' \<le> current_step m' then
                   [''Max steps ('' @ str_int (max_steps m') @ '') reached at step ''
                      @ str_int (current_step m') @ ''.'',
                    ''Total tiles cleaned: '' @ str_int (cleaned_count m'),
                    ''Total agent moves: '' @ str_int (sum_list (map moves_made (agents m')))]
                 else [])))"
proof (intro impI, elim conjE, intro conjI impI)
  assume nd0: "\<not> is_done m0" and r: "run m0 chs = Inr (m, out)"
  show "out = (if is_done m then print_summary m else [])"
    using r nd0 by (rule run_output)
  obtain m' out' where s: "step m ch = Inr (m', out')" using step_total by blast
  have "if is_done m then m' = m \<and> out' = []
         else is_done m' = (dirty_tiles m' = [] \<or> max_steps m' \<le> current_step m') \<and>
              out' =
                (if dirty_tiles m' = [] then
                   [''All dirty tiles cleaned at step '' @ str_opt (last_cleaned_step m') @ ''.'',
                    ''Total tiles cleaned: '' @ str_int (cleaned_count m'),
                    ''Total agent moves: '' @ str_int (sum_list (map moves_made (agents m')))]
                 else if max_steps m' \<le> current_step m' then
                   [''Max steps ('' @ str_int (max_steps m') @ '') reached at step ''
                      @ str_int (current_step m') @ ''.'',
                    ''Total tiles cleaned: '' @ str_int (cleaned_count m'),
                    ''Total agent moves: '' @ str_int (sum_list (map moves_made (agents m')))]
                 else [])"
  proof (cases "is_done m")
    case True
    with s show ?thesis by (simp add: step_done)
  next
    case False
    from step_is_done [OF s False] step_out [OF s False] False
    show ?thesis by (simp add: print_summary_def Let_def)
  qed
  with s show "\<exists>m' out'. step m ch = Inr (m', out') \<and>
        (if is_done m then m' = m \<and> out' = []
         else is_done m' = (dirty_tiles m' = [] \<or> max_steps m' \<le> current_step m') \<and>
              out' =
                (if dirty_tiles m' = [] then
                   [''All dirty tiles cleaned at step '' @ str_opt (last_cleaned_step m') @ ''.'',
                    ''Total tiles cleaned: '' @ str_int (cleaned_count m'),
                    ''Total agent moves: '' @ str_int (sum_list (map moves_made (agents m')))]
                 else if max_steps m' \<le> current_step m' then
                   [''Max steps ('' @ str_int (max_steps m') @ '') reached at step ''
                      @ str_int (current_step m') @ ''.'',
                    ''Total tiles cleaned: '' @ str_int (cleaned_count m'),
                    ''Total agent moves: '' @ str_int (sum_list (map moves_made (agents m')))]
                 else []))"
    by blast
next
  assume nd0: "\<not> is_done m0" and r: "run m0 chs = Inr (m, out)" and ne: "chs \<noteq> []"
  show "is_done m = (dirty_tiles m = [] \<or> max_steps m \<le> current_step m)"
    using r nd0 ne by (rule run_is_done)
qed

theorem summary_at_termination_witness:
  "\<not> is_done \<lparr>grid = \<lparr>width = 1, height = 6\<rparr>,
          agents = [\<lparr>unique_id = 0, pos = (0, 5), next_pos = None, moves_made = 0\<rparr>],
          dirty_tiles = [(0, 4)], dirty_count = 1, max_steps = 5, current_step = 0,
          is_done = False, cleaned_count = 0, last_cleaned_step = None\<rparr> \<and>
   run \<lparr>grid = \<lparr>width = 1, height = 6\<rparr>,
          agents = [\<lparr>unique_id = 0, pos = (0, 5), next_pos = None, moves_made = 0\<rparr>],
          dirty_tiles = [(0, 4)], dirty_count = 1, max_steps = 5, current_step = 0,
          is_done = False, cleaned_count = 0, last_cleaned_step = None\<rparr> [always 0] =
     Inr (\<lparr>grid = \<lparr>width = 1, height = 6\<rparr>,
          agents = [\<lparr>unique_id = 0, pos = (0, 5), next_pos = Some (0, 5), moves_made = 0\<rparr>],
          dirty_tiles = [(0, 4)], dirty_count = 1, max_steps = 5, current_step = 1,
          is_done = False, cleaned_count = 0, last_cleaned_step = None\<rparr>, []) \<and>
   step \<lparr>grid = \<lparr>width = 1, height = 6\<rparr>,
          agents = [\<lparr>unique_id = 0, pos = (0, 5), next_pos = Some (0, 5), moves_made = 0\<rparr>],
          dirty_tiles = [(0, 4)], dirty_count = 1, max_steps = 5, current_step = 1,
          is_done = False, cleaned_count = 0, last_cleaned_step = None\<rparr> (always 3) =
     Inr (\<lparr>grid = \<lparr>width = 1, height = 6\<rparr>,
          agents = [\<lparr>unique_id = 0, pos = (0, 4), next_pos = Some (0, 4), moves_made = 1\<rparr>],
          dirty_tiles = [], dirty_count = 1, max_steps = 5, current_step = 2,
          is_done = True, cleaned_count = 1, last_cleaned_step = Some 2\<rparr>,
        [''All dirty tiles cleaned at step 2.'', ''Total tiles cleaned: 1'',
         ''Total agent moves: 1'']) \<and>
   [''All dirty tiles cleaned at step 2.'', ''Total tiles cleaned: 1'', ''Total agent moves: 1''] =
     [''All dirty tiles cleaned at step '' @ str_opt (Some 2) @ ''.'',
      ''Total tiles cleaned: '' @ str_int 1, ''Total agent moves: '' @ str_int 1]"
proof -
  let ?g = "\<lparr>width = 1, height = 6\<rparr>"
  let ?m0 = "\<lparr>grid = ?g,
          agents = [\<lparr>unique_id = 0, pos = (0, 5), next_pos = None, moves_made = 0\<rparr>],
          dirty_tiles = [(0, 4)], dirty_count = 1, max_steps = 5, current_step = 0,
          is_done = False, cleaned_count = 0, last_cleaned_step = None\<rparr>"
  let ?m1 = "\<lparr>grid = ?g,
          agents = [\<lparr>unique_id = 0, pos = (0, 5), next_pos = Some (0, 5), moves_made = 0\<rparr>],
          dirty_tiles = [(0, 4)], dirty_count = 1, max_steps = 5, current_step = 1,
          is_done = False, cleaned_count = 0, last_cleaned_step = None\<rparr>"
  let ?m2 = "\<lparr>grid = ?g,
          agents = [\<lparr>unique_id = 0, pos = (0, 4), next_pos = Some (0, 4), moves_made = 1\<rparr>],
          dirty_tiles = [], dirty_count = 1, max_steps = 5, current_step = 2,
          is_done = True, cleaned_count = 1, last_cleaned_step = Some 2\<rparr>"
  let ?out = "[''All dirty tiles cleaned at step 2.'', ''Total tiles cleaned: 1'',
         ''Total agent moves: 1'']"
  have nd0: "\<not> is_done ?m0" by simp
  have r: "run ?m0 [always 0] = Inr (?m1, [])"
    by code_simp
  have st: "step ?m1 (always 3) = Inr (?m2, ?out)"
    by code_simp
  note T = summary_at_termination [where ?m0.0 = ?m0 and chs = "[always 0]" and m = ?m1
      and out = "[]" and ch = "always 3"]
  from T nd0 r obtain m' out' where s': "step ?m1 (always 3) = Inr (m', out')"
    and c: "if is_done ?m1 then m' = ?m1 \<and> out' = []
         else is_done m' = (dirty_tiles m' = [] \<or> max_steps m' \<le> current_step m') \<and>
              out' =
                (if dirty_tiles m' = [] then
                   [''All dirty tiles cleaned at step '' @ str_opt (last_cleaned_step m') @ ''.'',
                    ''Total tiles cleaned: '' @ str_int (cleaned_count m'),
                    ''Total agent moves: '' @ str_int (sum_list (map moves_made (agents m')))]
                 else if max_steps m' \<le> current_step m' then
                   [''Max steps ('' @ str_int (max_steps m') @ '') reached at step ''
                      @ str_int (current_step m') @ ''.'',
                    ''Total tiles cleaned: '' @ str_int (cleaned_count m'),
                    ''Total agent moves: '' @ str_int (sum_list (map moves_made (agents m')))]
                 else [])"
    by blast
  from s' st have "m' = ?m2" and "out' = ?out" by simp_all
  with c have D: "?out =
     [''All dirty tiles cleaned at step '' @ str_opt (Some 2) @ ''.'',
      ''Total tiles cleaned: '' @ str_int 1, ''Total agent moves: '' @ str_int 1]"
    by simp
  from nd0 r st D show ?thesis by blast
qed


lemma str_int_0: "str_int 0 = ''0''"
  by (simp add: str_int_def)

text \<open>
  C1 (amended). After every successful construction, whatever \<open>max_steps\<close> and the
  dirty list are, \<open>done\<close> is false, \<open>cleaned_count\<close> is 0 and \<open>current_step\<close> is 0:
  \<open>__init__\<close> sets \<open>done = False\<close> unconditionally and only \<open>step\<close> tests the finish
  condition. When \<open>max_steps\<close> is 0 or the dirty list is empty, the first \<open>step\<close> call
  runs a full tick, leaves \<open>done\<close> true with \<open>current_step = 1\<close> and prints the
  summary. With a non-empty dirty list, \<open>print_summary\<close> called right after
  construction gives the max-steps lines at step 0.
\<close>

theorem construction_leaves_engine_running:
  "DummyModel_init h w na nd ns rnd = Inr m \<longrightarrow>
     \<not> is_done m \<and> cleaned_count m = 0 \<and> current_step m = 0 \<and>
     (ns = 0 \<or> dirty_tiles m = [] \<longrightarrow>
        (\<exists>m' out. step m ch = Inr (m', out) \<and> is_done m' \<and> current_step m' = 1 \<and>
           out = print_summary m')) \<and>
     (dirty_tiles m \<noteq> [] \<longrightarrow>
        print_summary m =
          [''Max steps ('' @ str_int ns @ '') reached at step 0.'',
           ''Total tiles cleaned: 0'', ''Total agent moves: 0''])"
proof (intro impI conjI)
  assume init: "DummyModel_init h w na nd ns rnd = Inr m"
  note p = DummyModel_init_props [OF init]
  show nd: "\<not> is_done m" by (rule p(9))
  show "cleaned_count m = 0" by (rule p(10))
  show cs: "current_step m = 0" by (rule p(8))
  {
    assume c: "ns = 0 \<or> dirty_tiles m = []"
    obtain m' out where s: "step m ch = Inr (m', out)" using step_total by blast
    have st: "current_step m' = 1" using step_current_step [OF s nd] cs by simp
    have "max_steps m' = ns" using step_frame [OF s] p(7) by simp
    moreover have "dirty_tiles m = [] \<Longrightarrow> dirty_tiles m' = []"
      using step_dirty_tiles [OF s nd] by simp
    ultimately have d: "is_done m'" using step_is_done [OF s nd] c st by auto
    with step_out [OF s nd] s st
    show "\<exists>m' out. step m ch = Inr (m', out) \<and> is_done m' \<and> current_step m' = 1 \<and>
           out = print_summary m'"
      by auto
  }
  {
    assume "dirty_tiles m \<noteq> []"
    with p(7) p(10) cs init_moves_zero [OF init]
    show "print_summary m =
          [''Max steps ('' @ str_int ns @ '') reached at step 0.'',
           ''Total tiles cleaned: 0'', ''Total agent moves: 0'']"
      by (simp add: print_summary_def Let_def str_int_0)
  }
qed

theorem construction_leaves_engine_running_witness:
  "DummyModel_init 6 6 1 2 0 (always 1) =
     Inr \<lparr>grid = \<lparr>width = 6, height = 6\<rparr>,
          agents = [\<lparr>unique_id = 0, pos = (0, 5), next_pos = None, moves_made = 0\<rparr>],
          dirty_tiles = [(0, 1), (0, 2)], dirty_count = 2, max_steps = 0, current_step = 0,
          is_done = False, cleaned_count = 0, last_cleaned_step = None\<rparr> \<and>
   step \<lparr>grid = \<lparr>width = 6, height = 6\<rparr>,
          agents = [\<lparr>unique_id = 0, pos = (0, 5), next_pos = None, moves_made = 0\<rparr>],
          dirty_tiles = [(0, 1), (0, 2)], dirty_count = 2, max_steps = 0, current_step = 0,
          is_done = False, cleaned_count = 0, last_cleaned_step = None\<rparr> (always 3) =
     Inr (\<lparr>grid = \<lparr>width = 6, height = 6\<rparr>,
          agents = [\<lparr>unique_id = 0, pos = (0, 4), next_pos = Some (0, 4), moves_made = 1\<rparr>],
          dirty_tiles = [(0, 1), (0, 2)], dirty_count = 2, max_steps = 0, current_step = 1,
          is_done = True, cleaned_count = 0, last_cleaned_step = None\<rparr>,
        [''Max steps (0) reached at step 1.'', ''Total tiles cleaned: 0'',
         ''Total agent moves: 1'']) \<and>
   (\<exists>m' out. step \<lparr>grid = \<lparr>width = 6, height = 6\<rparr>,
          agents = [\<lparr>unique_id = 0, pos = (0, 5), next_pos = None, moves_made = 0\<rparr>],
          dirty_tiles = [(0, 1), (0, 2)], dirty_count = 2, max_steps = 0, current_step = 0,
          is_done = False, cleaned_count = 0, last_cleaned_step = None\<rparr> (always 3) = Inr (m', out) \<and>
      is_done m' \<and> current_step m' = 1 \<and> out = print_summary m') \<and>
   print_summary \<lparr>grid = \<lparr>width = 6, height = 6\<rparr>,
          agents = [\<lparr>unique_id = 0, pos = (0, 5), next_pos = None, moves_made = 0\<rparr>],
          dirty_tiles = [(0, 1), (0, 2)], dirty_count = 2, max_steps = 0, current_step = 0,
          is_done = False, cleaned_count = 0, last_cleaned_step = None\<rparr> =
     [''Max steps ('' @ str_int 0 @ '') reached at step 0.'',
      ''Total tiles cleaned: 0'', ''Total agent moves: 0'']"
proof -
  let ?g = "\<lparr>width = 6, height = 6\<rparr>"
  let ?m0 = "\<lparr>grid = ?g,
          agents = [\<lparr>unique_id = 0, pos = (0, 5), next_pos = None, moves_made = 0\<rparr>],
          dirty_tiles = [(0, 1), (0, 2)], dirty_count = 2, max_steps = 0, current_step = 0,
          is_done = False, cleaned_count = 0, last_cleaned_step = None\<rparr>"
  let ?m1 = "\<lparr>grid = ?g,
          agents = [\<lparr>unique_id = 0, pos = (0, 4), next_pos = Some (0, 4), moves_made = 1\<rparr>],
          dirty_tiles = [(0, 1), (0, 2)], dirty_count = 2, max_steps = 0, current_step = 1,
          is_done = True, cleaned_count = 0, last_cleaned_step = None\<rparr>"
  have init: "DummyModel_init 6 6 1 2 0 (always 1) = Inr ?m0"
    by code_simp
  have st: "step ?m0 (always 3) =
      Inr (?m1, [''Max steps (0) reached at step 1.'', ''Total tiles cleaned: 0'',
         ''Total agent moves: 1''])"
    by code_simp
  have c: "(0::int) = 0 \<or> dirty_tiles ?m0 = []" by simp
  have ne: "dirty_tiles ?m0 \<noteq> []" by simp
  note T = construction_leaves_engine_running [where h = 6 and w = 6 and na = 1 and nd = 2
      and ns = 0 and rnd = "always 1" and m = ?m0 and ch = "always 3"]
  from T init c have A: "\<exists>m' out. step ?m0 (always 3) = Inr (m', out) \<and>
      is_done m' \<and> current_step m' = 1 \<and> out = print_summary m'"
    by blast
  from T init ne have B: "print_summary ?m0 =
     [''Max steps ('' @ str_int 0 @ '') reached at step 0.'',
      ''Total tiles cleaned: 0'', ''Total agent moves: 0'']"
    by blast
  from init st A B show ?thesis by blast
qed

text \<open>
  C1 as stated fails: constructed with \<open>max_steps = 0\<close> (first model) or with no dirty
  tile (second model), the model has \<open>done = False\<close>.
\<close>

theorem done_at_construction_counterexample:
  "DummyModel_init 6 6 1 2 0 (always 0) =
     Inr \<lparr>grid = \<lparr>width = 6, height = 6\<rparr>,
          agents = [\<lparr>unique_id = 0, pos = (0, 5), next_pos = None, moves_made = 0\<rparr>],
          dirty_tiles = [(0, 0), (0, 1)], dirty_count = 2, max_steps = 0, current_step = 0,
          is_done = False, cleaned_count = 0, last_cleaned_step = None\<rparr> \<and>
   map_sum id is_done (DummyModel_init 6 6 1 2 0 (always 0)) = Inr False \<and>
   DummyModel_init 6 6 1 0 100 (always 0) =
     Inr \<lparr>grid = \<lparr>width = 6, height = 6\<rparr>,
          agents = [\<lparr>unique_id = 0, pos = (0, 5), next_pos = None, moves_made = 0\<rparr>],
          dirty_tiles = [], dirty_count = 0, max_steps = 100, current_step = 0,
          is_done = False, cleaned_count = 0, last_cleaned_step = None\<rparr> \<and>
   map_sum id is_done (DummyModel_init 6 6 1 0 100 (always 0)) = Inr False"
  by code_simp




end
